theory Spec2Isabelle
  imports Main "HOL-Library.Sublist"
begin

section \<open>Text primitives of the analyzer\<close>

text \<open>
  The script \<^verbatim>\<open>scripts/analyze-audio-logs.py\<close> works on Python \<^verbatim>\<open>str\<close> values.
  A \<^typ>\<open>char\<close> stands for one character of such a string, identified with its code
  point; the development covers the characters with a code point below 256.  On that
  range \<^verbatim>\<open>str.lower\<close>, \<^verbatim>\<open>str.strip\<close> and the pattern \<^verbatim>\<open>\d\<close> are as written below.
\<close>

definition isspace :: "char \<Rightarrow> bool" where
  "isspace c = ((of_char c :: nat) \<in> set [9, 10, 11, 12, 13, 28, 29, 30, 31, 32, 133, 160])"

definition isdigit :: "char \<Rightarrow> bool" where
  "isdigit c = (48 \<le> (of_char c :: nat) \<and> (of_char c :: nat) \<le> 57)"

definition lower_char :: "char \<Rightarrow> char" where
  "lower_char c =
     (let n = (of_char c :: nat)
      in if (65 \<le> n \<and> n \<le> 90) \<or> (192 \<le> n \<and> n \<le> 222 \<and> n \<noteq> 215)
         then char_of (n + 32) else c)"

text \<open>\<^verbatim>\<open>s.lower()\<close>\<close>

definition lower :: "string \<Rightarrow> string" where
  "lower s = map lower_char s"

text \<open>\<^verbatim>\<open>s.strip()\<close>\<close>

definition strip :: "string \<Rightarrow> string" where
  "strip s = rev (dropWhile isspace (rev (dropWhile isspace s)))"

text \<open>\<^verbatim>\<open>sub in s\<close> on strings: \<open>sub\<close> occurs in \<open>s\<close> as a contiguous block.\<close>

fun starts_with :: "string \<Rightarrow> string \<Rightarrow> bool" where
  "starts_with [] s = True"
| "starts_with (c # cs) [] = False"
| "starts_with (c # cs) (d # ds) = (c = d \<and> starts_with cs ds)"

fun str_in :: "string \<Rightarrow> string \<Rightarrow> bool" where
  "str_in sub [] = (sub = [])"
| "str_in sub (c # cs) = (starts_with sub (c # cs) \<or> str_in sub cs)"

text \<open>\<^verbatim>\<open>str(n)\<close> for a non-negative integer.\<close>

definition digit_char :: "nat \<Rightarrow> char" where
  "digit_char d = ''0123456789'' ! d"

function str_nat :: "nat \<Rightarrow> string" where
  "str_nat n = (if n < 10 then [digit_char n] else str_nat (n div 10) @ [digit_char (n mod 10)])"
  by pat_completeness auto
termination
  by (relation "measure (\<lambda>n. n)") auto

declare str_nat.simps [simp del]

text \<open>
  \<^verbatim>\<open>re.search(r'(\d{2}:\d{2}:\d{2}\.\d{3})', line)\<close>: the leftmost position at which the
  twelve-character pattern matches, and the matched text.
\<close>

fun timestamp_at :: "string \<Rightarrow> bool" where
  "timestamp_at (h1 # h2 # c1 # m1 # m2 # c2 # s1 # s2 # d # f1 # f2 # f3 # rest) =
     (isdigit h1 \<and> isdigit h2 \<and> c1 = CHR '':'' \<and> isdigit m1 \<and> isdigit m2 \<and> c2 = CHR '':'' \<and>
      isdigit s1 \<and> isdigit s2 \<and> d = CHR ''.'' \<and> isdigit f1 \<and> isdigit f2 \<and> isdigit f3)"
| "timestamp_at s = False"

fun search_timestamp :: "string \<Rightarrow> string option" where
  "search_timestamp [] = None"
| "search_timestamp (c # cs) =
     (if timestamp_at (c # cs) then Some (take 12 (c # cs)) else search_timestamp cs)"

section \<open>The analyzer and its parse pass\<close>

text \<open>
  The dictionaries appended to the five lists have fixed keys and become records:
  \<open>line\<close>, \<open>timestamp\<close>, \<open>message\<close> for warnings, buffer statistics and memory readings,
  with the further key \<open>type\<close> for errors and buffer events.
\<close>

record event =
  line :: nat
  timestamp :: "string option"
  message :: string

record typed_event = event +
  type :: string

record analyzer =
  log_file :: string
  events :: "typed_event list"
  errors :: "typed_event list"
  warnings :: "event list"
  buffer_stats :: "event list"
  memory_readings :: "event list"

text \<open>
  \<^verbatim>\<open>AudioLogAnalyzer.__init__\<close>.  The script keeps \<^verbatim>\<open>Path(log_file_path)\<close> and only ever
  writes it as text; \<open>log_file\<close> is that text, so the argument of \<open>init\<close> is the path in
  the form \<^verbatim>\<open>str(Path(log_file_path))\<close> gives it (the normalisation of separators is
  left outside).
\<close>

definition init :: "string \<Rightarrow> analyzer" where
  "init log_file_path =
     \<lparr>log_file = log_file_path, events = [], errors = [], warnings = [],
      buffer_stats = [], memory_readings = []\<rparr>"

text \<open>\<^verbatim>\<open>AudioLogAnalyzer._classify_error\<close>\<close>

definition classify_error :: "string \<Rightarrow> string" where
  "classify_error ln =
     (let line_lower = lower ln
      in if str_in ''mediacodec'' line_lower then ''MediaCodec''
         else if str_in ''audiorecord'' line_lower then ''AudioRecord''
         else if str_in ''buffer'' line_lower then ''Buffer''
         else if str_in ''encoder'' line_lower then ''Encoder''
         else ''Unknown'')"

text \<open>
  \<^verbatim>\<open>AudioLogAnalyzer._parse_line\<close>.  The five \<^verbatim>\<open>if\<close> statements run one after the
  other on the same line, each appending to its own list.
\<close>

definition add_error :: "string \<Rightarrow> nat \<Rightarrow> string option \<Rightarrow> analyzer \<Rightarrow> analyzer" where
  "add_error ln line_num ts a =
     (if str_in ''error'' (lower ln) \<or> str_in ''fail'' (lower ln)
      then a\<lparr>errors := errors a @
             [\<lparr>line = line_num, timestamp = ts, message = ln, type = classify_error ln\<rparr>]\<rparr>
      else a)"

definition add_buffer_event :: "string \<Rightarrow> nat \<Rightarrow> string option \<Rightarrow> analyzer \<Rightarrow> analyzer" where
  "add_buffer_event ln line_num ts a =
     (if str_in ''overflow'' (lower ln) \<or> str_in ''underrun'' (lower ln)
      then let event_type = (if str_in ''overflow'' (lower ln) then ''overflow'' else ''underrun'')
           in a\<lparr>events := events a @
                [\<lparr>line = line_num, timestamp = ts, message = ln, type = event_type\<rparr>]\<rparr>
      else a)"

definition add_warning :: "string \<Rightarrow> nat \<Rightarrow> string option \<Rightarrow> analyzer \<Rightarrow> analyzer" where
  "add_warning ln line_num ts a =
     (if str_in ''warning'' (lower ln) \<or> str_in ''warn'' (lower ln)
      then a\<lparr>warnings := warnings a @ [\<lparr>line = line_num, timestamp = ts, message = ln\<rparr>]\<rparr>
      else a)"

definition add_buffer_stat :: "string \<Rightarrow> nat \<Rightarrow> string option \<Rightarrow> analyzer \<Rightarrow> analyzer" where
  "add_buffer_stat ln line_num ts a =
     (if str_in ''buffer health'' (lower ln)
      then a\<lparr>buffer_stats := buffer_stats a @
             [\<lparr>line = line_num, timestamp = ts, message = ln\<rparr>]\<rparr>
      else a)"

definition add_memory_reading :: "string \<Rightarrow> nat \<Rightarrow> string option \<Rightarrow> analyzer \<Rightarrow> analyzer" where
  "add_memory_reading ln line_num ts a =
     (if str_in ''memory'' (lower ln) \<and> (str_in ''kb'' (lower ln) \<or> str_in ''mb'' (lower ln))
      then a\<lparr>memory_readings := memory_readings a @
             [\<lparr>line = line_num, timestamp = ts, message = ln\<rparr>]\<rparr>
      else a)"

definition parse_line :: "analyzer \<Rightarrow> string \<Rightarrow> nat \<Rightarrow> analyzer" where
  "parse_line a ln line_num =
     (if ln = [] then a
      else let ts = search_timestamp ln
           in add_memory_reading ln line_num ts
                (add_buffer_stat ln line_num ts
                  (add_warning ln line_num ts
                    (add_buffer_event ln line_num ts
                      (add_error ln line_num ts a)))))"

text \<open>
  \<^verbatim>\<open>AudioLogAnalyzer.parse_log\<close>.  The file is given as the list of lines that iterating
  over it yields, or \<open>None\<close> when the path does not exist, in which case the script
  leaves with \<^verbatim>\<open>sys.exit(1)\<close>.
\<close>

datatype exit = SystemExit nat

definition parse_lines :: "analyzer \<Rightarrow> string list \<Rightarrow> analyzer" where
  "parse_lines a ls = fold (\<lambda>(line_num, l) a. parse_line a (strip l) line_num) (enumerate 1 ls) a"

definition parse_log :: "analyzer \<Rightarrow> string list option \<Rightarrow> exit + analyzer" where
  "parse_log a file =
     (case file of
        None \<Rightarrow> Inl (SystemExit 1)
      | Some ls \<Rightarrow> Inr (parse_lines a ls))"

section \<open>The report\<close>

text \<open>
  Every \<^verbatim>\<open>_print_\<close> method is modelled by the list of lines it prints, together with
  the value it returns where it returns one.  The glyphs U+2713 and U+2717 that the
  script prints as bullets lie outside the range of \<^typ>\<open>char\<close>; each is written as the
  three bytes of its UTF-8 form.
\<close>

definition check_mark :: string where
  "check_mark = [CHR 0xE2, CHR 0x9C, CHR 0x93]"

definition cross_mark :: string where
  "cross_mark = [CHR 0xE2, CHR 0x9C, CHR 0x97]"

definition rule_line :: "char \<Rightarrow> string" where
  "rule_line c = replicate 70 c"

text \<open>\<^verbatim>\<open>sum(1 for e in xs if e['type'] == t)\<close>\<close>

definition count_type :: "string \<Rightarrow> typed_event list \<Rightarrow> nat" where
  "count_type t xs = sum_list (map (\<lambda>e. 1) (filter (\<lambda>e. type e = t) xs))"

text \<open>\<^verbatim>\<open>AudioLogAnalyzer._print_summary\<close>\<close>

definition print_summary :: "analyzer \<Rightarrow> string list" where
  "print_summary a =
     [''SUMMARY STATISTICS'',
      rule_line CHR ''-'',
      ''Total errors:     '' @ str_nat (length (errors a)),
      ''Total warnings:   '' @ str_nat (length (warnings a)),
      ''Buffer events:    '' @ str_nat (length (events a)),
      ''  - Overflows:    '' @ str_nat (count_type ''overflow'' (events a)),
      ''  - Underruns:    '' @ str_nat (count_type ''underrun'' (events a)),
      ''Buffer stats:     '' @ str_nat (length (buffer_stats a)) @ '' samples'',
      ''Memory readings:  '' @ str_nat (length (memory_readings a)) @ '' samples'',
      []]"

text \<open>
  \<^verbatim>\<open>AudioLogAnalyzer._print_critical_issues\<close>: first the local list \<^verbatim>\<open>critical\<close>, then
  the lines printed from it.
\<close>

definition critical_issues :: "analyzer \<Rightarrow> string list" where
  "critical_issues a =
     (let mediacodec_errors = filter (\<lambda>e. type e = ''MediaCodec'') (errors a);
          overflow_count = count_type ''overflow'' (events a);
          underrun_count = count_type ''underrun'' (events a);
          audiorecord_errors = filter (\<lambda>e. type e = ''AudioRecord'') (errors a)
      in (if mediacodec_errors \<noteq> []
          then [''MediaCodec errors detected: '' @ str_nat (length mediacodec_errors)] else []) @
         (if overflow_count > 0
          then [''Buffer overflows detected: '' @ str_nat overflow_count] else []) @
         (if underrun_count > 0
          then [''Buffer underruns detected: '' @ str_nat underrun_count] else []) @
         (if audiorecord_errors \<noteq> []
          then [''AudioRecord failures detected: '' @ str_nat (length audiorecord_errors)]
          else []))"

definition print_critical_issues :: "analyzer \<Rightarrow> string list" where
  "print_critical_issues a =
     (let critical = critical_issues a
      in [''CRITICAL ISSUES'', rule_line CHR ''-''] @
         (if critical \<noteq> []
          then map (\<lambda>issue. ''  '' @ cross_mark @ '' '' @ issue) critical
          else [''  '' @ check_mark @ '' No critical issues found'']) @
         [[]])"

text \<open>
  \<^verbatim>\<open>Counter(e['type'] for e in self.errors)\<close>: a dictionary of counts, which keeps its
  keys in the order of their first insertion, hence an association list.
\<close>

fun counter_add :: "string \<Rightarrow> (string \<times> nat) list \<Rightarrow> (string \<times> nat) list" where
  "counter_add k [] = [(k, 1)]"
| "counter_add k ((k', c) # kvs) =
     (if k = k' then (k', c + 1) # kvs else (k', c) # counter_add k kvs)"

definition Counter :: "string list \<Rightarrow> (string \<times> nat) list" where
  "Counter xs = fold counter_add xs []"

text \<open>
  \<^verbatim>\<open>Counter.most_common()\<close> is \<^verbatim>\<open>sorted(self.items(), key=itemgetter(1), reverse=True)\<close>.
  Python's sort is stable, and with \<^verbatim>\<open>reverse=True\<close> it reverses the list, sorts it
  ascending and reverses the result, so that equal keys keep their order.
  \<^const>\<open>sort_key\<close> is a stable ascending sort, and a stable sort has one result only.
\<close>

definition sorted_reverse :: "('a \<Rightarrow> nat) \<Rightarrow> 'a list \<Rightarrow> 'a list" where
  "sorted_reverse key xs = rev (sort_key key (rev xs))"

definition most_common :: "(string \<times> nat) list \<Rightarrow> (string \<times> nat) list" where
  "most_common kvs = sorted_reverse snd kvs"

text \<open>
  \<^verbatim>\<open>AudioLogAnalyzer._print_error_breakdown\<close>.  \<^verbatim>\<open>next(...)\<close> raises
  \<^verbatim>\<open>StopIteration\<close> when no error has the type looked for.
\<close>

datatype exception = StopIteration

fun breakdown_rows ::
  "typed_event list \<Rightarrow> (string \<times> nat) list \<Rightarrow> exception + (string \<times> nat \<times> typed_event) list" where
  "breakdown_rows errs [] = Inr []"
| "breakdown_rows errs ((error_type, count) # rest) =
     (case find (\<lambda>e. type e = error_type) errs of
        None \<Rightarrow> Inl StopIteration
      | Some first_occurrence \<Rightarrow>
          (case breakdown_rows errs rest of
             Inl x \<Rightarrow> Inl x
           | Inr rows \<Rightarrow> Inr ((error_type, count, first_occurrence) # rows)))"

definition error_breakdown :: "analyzer \<Rightarrow> exception + (string \<times> nat \<times> typed_event) list" where
  "error_breakdown a = breakdown_rows (errors a) (most_common (Counter (map type (errors a))))"

definition breakdown_lines :: "string \<times> nat \<times> typed_event \<Rightarrow> string list" where
  "breakdown_lines row =
     (case row of (error_type, count, first_occurrence) \<Rightarrow>
        [''  '' @ error_type @ '': '' @ str_nat count,
         ''    Example (line '' @ str_nat (line first_occurrence) @ ''): '' @
           take 70 (message first_occurrence)])"

definition print_error_breakdown :: "analyzer \<Rightarrow> exception + string list" where
  "print_error_breakdown a =
     (if errors a \<noteq> []
      then (case error_breakdown a of
              Inl x \<Rightarrow> Inl x
            | Inr rows \<Rightarrow>
                Inr ([''ERROR BREAKDOWN BY TYPE'', rule_line CHR ''-''] @
                     concat (map breakdown_lines rows) @ [[]]))
      else Inr [''ERROR BREAKDOWN BY TYPE'', rule_line CHR ''-'',
                ''  '' @ check_mark @ '' No errors found'', []])"

text \<open>
  \<^verbatim>\<open>AudioLogAnalyzer._print_timeline\<close>.  The dictionaries of \<^verbatim>\<open>all_events\<close> carry the
  further key \<open>subtype\<close>; \<^verbatim>\<open>all_events.sort(key=...)\<close> is Python's stable sort.
\<close>

record timeline_event = typed_event +
  subtype :: string

definition timeline_of :: "string \<Rightarrow> typed_event \<Rightarrow> timeline_event" where
  "timeline_of category e =
     \<lparr>line = line e, timestamp = timestamp e, message = message e,
      type = category, subtype = type e\<rparr>"




text \<open>
  \<^verbatim>\<open>AudioLogAnalyzer._print_pass_fail\<close>: the local list \<^verbatim>\<open>failures\<close>, then the lines
  printed and the value returned (\<open>True\<close> for PASS).
\<close>

definition failures :: "analyzer \<Rightarrow> string list" where
  "failures a =
     (let overflow_count = count_type ''overflow'' (events a);
          underrun_count = count_type ''underrun'' (events a);
          mediacodec_errors = count_type ''MediaCodec'' (errors a)
      in (if length (errors a) > 0
          then [''Errors detected: '' @ str_nat (length (errors a))] else []) @
         (if overflow_count > 0 then [''Buffer overflows: '' @ str_nat overflow_count] else []) @
         (if underrun_count > 0 then [''Buffer underruns: '' @ str_nat underrun_count] else []) @
         (if mediacodec_errors > 0
          then [''MediaCodec errors: '' @ str_nat mediacodec_errors] else []))"

definition print_pass_fail :: "analyzer \<Rightarrow> string list \<times> bool" where
  "print_pass_fail a =
     (if failures a \<noteq> []
      then ([rule_line CHR ''='', ''PASS/FAIL ASSESSMENT'', rule_line CHR ''='',
             ''RESULT: FAIL'', [], ''Failure reasons:''] @
            map (\<lambda>failure. ''  '' @ cross_mark @ '' '' @ failure) (failures a) @
            [[],
             ''Action required: Investigate and fix issues before proceeding to next test''],
            False)
      else ([rule_line CHR ''='', ''PASS/FAIL ASSESSMENT'', rule_line CHR ''='',
             ''RESULT: PASS'', [], ''All checks passed:'',
             ''  '' @ check_mark @ '' No errors detected'',
             ''  '' @ check_mark @ '' No buffer overflows'',
             ''  '' @ check_mark @ '' No buffer underruns'',
             ''  '' @ check_mark @ '' No MediaCodec errors'',
             [],
             ''Action: Proceed to next subtask (subtask-5-2)''],
            True))"

text \<open>
  \<^verbatim>\<open>AudioLogAnalyzer.save_summary\<close>: the strings written to the summary file, one per
  \<^verbatim>\<open>f.write\<close>.  The wall-clock time, already formatted, is the parameter \<open>now\<close>.
\<close>

definition newline :: string where
  "newline = [CHR 0x0A]"

definition save_summary :: "analyzer \<Rightarrow> string \<Rightarrow> string list" where
  "save_summary a now =
     [''AUDIO LOG ANALYSIS SUMMARY'' @ newline,
      rule_line CHR ''='' @ newline @ newline,
      ''Log file: '' @ log_file a @ newline,
      ''Analysis time: '' @ now @ newline @ newline,
      ''Total errors: '' @ str_nat (length (errors a)) @ newline,
      ''Total warnings: '' @ str_nat (length (warnings a)) @ newline,
      ''Buffer overflows: '' @ str_nat (count_type ''overflow'' (events a)) @ newline,
      ''Buffer underruns: '' @ str_nat (count_type ''underrun'' (events a)) @ newline @ newline] @
     (if length (errors a) = 0 \<and> length (events a) = 0
      then [''RESULT: PASS'' @ newline]
      else [''RESULT: FAIL'' @ newline])"

section \<open>Notions used in the statements\<close>

text \<open>
  The position at which \<open>x\<close> occurs first in \<open>xs\<close>, counted from 0 (the length of
  \<open>xs\<close> when it does not occur).  It is used in proofs only.
\<close>

definition first_index :: "'a \<Rightarrow> 'a list \<Rightarrow> nat" where
  "first_index x xs = length (takeWhile (\<lambda>y. y \<noteq> x) xs)"

section \<open>The verdict\<close>

lemma count_type_length: "count_type t xs = length (filter (\<lambda>e. type e = t) xs)"
  by (induction xs) (simp_all add: count_type_def)

lemma count_type_le: "count_type t xs \<le> length xs"
  by (simp add: count_type_length)

lemma count_type_pos_iff: "0 < count_type t xs \<longleftrightarrow> (\<exists>e \<in> set xs. type e = t)"
  by (simp add: count_type_length filter_empty_conv)

lemma failures_Nil_iff:
  "failures a = [] \<longleftrightarrow>
     length (errors a) = 0 \<and> count_type ''overflow'' (events a) = 0 \<and>
     count_type ''underrun'' (events a) = 0 \<and> count_type ''MediaCodec'' (errors a) = 0"
  by (simp add: failures_def Let_def)

lemma length_failures:
  "length (failures a) =
     of_bool (0 < length (errors a)) + of_bool (0 < count_type ''overflow'' (events a)) +
     of_bool (0 < count_type ''underrun'' (events a)) +
     of_bool (0 < count_type ''MediaCodec'' (errors a))"
  by (simp add: failures_def Let_def)

lemma rule_line_neq: "length s \<noteq> 70 \<Longrightarrow> s \<noteq> rule_line c" "length s \<noteq> 70 \<Longrightarrow> rule_line c \<noteq> s"
  by (auto simp add: rule_line_def)

text \<open>
  Claim C1.  The value returned by \<^verbatim>\<open>_print_pass_fail\<close> is \<open>False\<close> (the verdict FAIL)
  exactly when one of the four counts is positive: all errors, overflows, underruns,
  MediaCodec errors.  Every count that is positive has its own reason in the list
  \<^verbatim>\<open>failures\<close>, the list has as many entries as there are positive counts, and on
  FAIL every reason is printed.  Otherwise the verdict is PASS.
\<close>

theorem pass_fail_verdict:
  "(snd (print_pass_fail a) = False \<longleftrightarrow>
      0 < length (errors a) \<or> 0 < count_type ''overflow'' (events a) \<or>
      0 < count_type ''underrun'' (events a) \<or> 0 < count_type ''MediaCodec'' (errors a)) \<and>
   (snd (print_pass_fail a) = False \<longleftrightarrow> ''RESULT: FAIL'' \<in> set (fst (print_pass_fail a))) \<and>
   (snd (print_pass_fail a) = True \<longleftrightarrow> ''RESULT: PASS'' \<in> set (fst (print_pass_fail a))) \<and>
   (0 < length (errors a) \<longrightarrow>
      ''Errors detected: '' @ str_nat (length (errors a)) \<in> set (failures a)) \<and>
   (0 < count_type ''overflow'' (events a) \<longrightarrow>
      ''Buffer overflows: '' @ str_nat (count_type ''overflow'' (events a)) \<in> set (failures a)) \<and>
   (0 < count_type ''underrun'' (events a) \<longrightarrow>
      ''Buffer underruns: '' @ str_nat (count_type ''underrun'' (events a)) \<in> set (failures a)) \<and>
   (0 < count_type ''MediaCodec'' (errors a) \<longrightarrow>
      ''MediaCodec errors: '' @ str_nat (count_type ''MediaCodec'' (errors a)) \<in> set (failures a)) \<and>
   length (failures a) =
     of_bool (0 < length (errors a)) + of_bool (0 < count_type ''overflow'' (events a)) +
     of_bool (0 < count_type ''underrun'' (events a)) +
     of_bool (0 < count_type ''MediaCodec'' (errors a)) \<and>
   (snd (print_pass_fail a) = False \<longrightarrow>
      (\<forall>r \<in> set (failures a). ''  '' @ cross_mark @ '' '' @ r \<in> set (fst (print_pass_fail a))))"
proof -
  have v: "snd (print_pass_fail a) = False \<longleftrightarrow> failures a \<noteq> []"
    by (simp add: print_pass_fail_def)
  have 1: "snd (print_pass_fail a) = False \<longleftrightarrow>
      0 < length (errors a) \<or> 0 < count_type ''overflow'' (events a) \<or>
      0 < count_type ''underrun'' (events a) \<or> 0 < count_type ''MediaCodec'' (errors a)"
    unfolding v failures_Nil_iff by auto
  have 2: "snd (print_pass_fail a) = False \<longleftrightarrow> ''RESULT: FAIL'' \<in> set (fst (print_pass_fail a))"
    by (auto simp add: print_pass_fail_def rule_line_neq)
  have 3: "snd (print_pass_fail a) = True \<longleftrightarrow> ''RESULT: PASS'' \<in> set (fst (print_pass_fail a))"
    by (auto simp add: print_pass_fail_def rule_line_neq)
  have 4: "0 < length (errors a) \<longrightarrow>
      ''Errors detected: '' @ str_nat (length (errors a)) \<in> set (failures a)"
    by (simp add: failures_def Let_def)
  have 5: "0 < count_type ''overflow'' (events a) \<longrightarrow>
      ''Buffer overflows: '' @ str_nat (count_type ''overflow'' (events a)) \<in> set (failures a)"
    by (simp add: failures_def Let_def)
  have 6: "0 < count_type ''underrun'' (events a) \<longrightarrow>
      ''Buffer underruns: '' @ str_nat (count_type ''underrun'' (events a)) \<in> set (failures a)"
    by (simp add: failures_def Let_def)
  have 7: "0 < count_type ''MediaCodec'' (errors a) \<longrightarrow>
      ''MediaCodec errors: '' @ str_nat (count_type ''MediaCodec'' (errors a)) \<in> set (failures a)"
    by (simp add: failures_def Let_def)
  have 8: "snd (print_pass_fail a) = False \<longrightarrow>
      (\<forall>r \<in> set (failures a). ''  '' @ cross_mark @ '' '' @ r \<in> set (fst (print_pass_fail a)))"
    by (simp add: print_pass_fail_def)
  from 1 2 3 4 5 6 7 8 length_failures [of a] show ?thesis by blast
qed

theorem pass_fail_verdict_witness:
  "0 < length (errors (init ''a.log''\<lparr>errors := [\<lparr>line = 1, timestamp = None, message = ''MediaCodec error'', type = ''MediaCodec''\<rparr>]\<rparr>)) \<and>
   0 < count_type ''MediaCodec'' (errors (init ''a.log''\<lparr>errors := [\<lparr>line = 1, timestamp = None, message = ''MediaCodec error'', type = ''MediaCodec''\<rparr>]\<rparr>)) \<and>
   snd (print_pass_fail (init ''a.log''\<lparr>errors := [\<lparr>line = 1, timestamp = None, message = ''MediaCodec error'', type = ''MediaCodec''\<rparr>]\<rparr>)) = False \<and>
   ''Errors detected: 1'' \<in> set (failures (init ''a.log''\<lparr>errors := [\<lparr>line = 1, timestamp = None, message = ''MediaCodec error'', type = ''MediaCodec''\<rparr>]\<rparr>)) \<and>
   ''MediaCodec errors: 1'' \<in> set (failures (init ''a.log''\<lparr>errors := [\<lparr>line = 1, timestamp = None, message = ''MediaCodec error'', type = ''MediaCodec''\<rparr>]\<rparr>)) \<and>
   length (failures (init ''a.log''\<lparr>errors := [\<lparr>line = 1, timestamp = None, message = ''MediaCodec error'', type = ''MediaCodec''\<rparr>]\<rparr>)) = 2"
  using pass_fail_verdict [of "init ''a.log''\<lparr>errors := [\<lparr>line = 1, timestamp = None, message = ''MediaCodec error'', type = ''MediaCodec''\<rparr>]\<rparr>"]
  by (simp add: init_def count_type_def str_nat.simps digit_char_def)

section \<open>One line at a time\<close>

lemma add_error_sel:
  "errors (add_error ln n ts a) =
     errors a @
     (if str_in ''error'' (lower ln) \<or> str_in ''fail'' (lower ln)
      then [\<lparr>line = n, timestamp = ts, message = ln, type = classify_error ln\<rparr>] else [])"
  "events (add_error ln n ts a) = events a"
  "warnings (add_error ln n ts a) = warnings a"
  "buffer_stats (add_error ln n ts a) = buffer_stats a"
  "memory_readings (add_error ln n ts a) = memory_readings a"
  "log_file (add_error ln n ts a) = log_file a"
  by (simp_all add: add_error_def)

lemma add_buffer_event_sel:
  "events (add_buffer_event ln n ts a) =
     events a @
     (if str_in ''overflow'' (lower ln) \<or> str_in ''underrun'' (lower ln)
      then [\<lparr>line = n, timestamp = ts, message = ln,
             type = (if str_in ''overflow'' (lower ln) then ''overflow'' else ''underrun'')\<rparr>]
      else [])"
  "errors (add_buffer_event ln n ts a) = errors a"
  "warnings (add_buffer_event ln n ts a) = warnings a"
  "buffer_stats (add_buffer_event ln n ts a) = buffer_stats a"
  "memory_readings (add_buffer_event ln n ts a) = memory_readings a"
  "log_file (add_buffer_event ln n ts a) = log_file a"
  by (simp_all add: add_buffer_event_def Let_def)

lemma add_warning_sel:
  "warnings (add_warning ln n ts a) =
     warnings a @
     (if str_in ''warning'' (lower ln) \<or> str_in ''warn'' (lower ln)
      then [\<lparr>line = n, timestamp = ts, message = ln\<rparr>] else [])"
  "errors (add_warning ln n ts a) = errors a"
  "events (add_warning ln n ts a) = events a"
  "buffer_stats (add_warning ln n ts a) = buffer_stats a"
  "memory_readings (add_warning ln n ts a) = memory_readings a"
  "log_file (add_warning ln n ts a) = log_file a"
  by (simp_all add: add_warning_def)

lemma add_buffer_stat_sel:
  "buffer_stats (add_buffer_stat ln n ts a) =
     buffer_stats a @
     (if str_in ''buffer health'' (lower ln)
      then [\<lparr>line = n, timestamp = ts, message = ln\<rparr>] else [])"
  "errors (add_buffer_stat ln n ts a) = errors a"
  "events (add_buffer_stat ln n ts a) = events a"
  "warnings (add_buffer_stat ln n ts a) = warnings a"
  "memory_readings (add_buffer_stat ln n ts a) = memory_readings a"
  "log_file (add_buffer_stat ln n ts a) = log_file a"
  by (simp_all add: add_buffer_stat_def)

lemma add_memory_reading_sel:
  "memory_readings (add_memory_reading ln n ts a) =
     memory_readings a @
     (if str_in ''memory'' (lower ln) \<and> (str_in ''kb'' (lower ln) \<or> str_in ''mb'' (lower ln))
      then [\<lparr>line = n, timestamp = ts, message = ln\<rparr>] else [])"
  "errors (add_memory_reading ln n ts a) = errors a"
  "events (add_memory_reading ln n ts a) = events a"
  "warnings (add_memory_reading ln n ts a) = warnings a"
  "buffer_stats (add_memory_reading ln n ts a) = buffer_stats a"
  "log_file (add_memory_reading ln n ts a) = log_file a"
  by (simp_all add: add_memory_reading_def)

lemmas add_sel = add_error_sel add_buffer_event_sel add_warning_sel add_buffer_stat_sel
  add_memory_reading_sel

lemma lower_Nil [simp]: "lower [] = []"
  by (simp add: lower_def)

lemma errors_parse_line:
  "errors (parse_line a ln n) =
     errors a @
     (if str_in ''error'' (lower ln) \<or> str_in ''fail'' (lower ln)
      then [\<lparr>line = n, timestamp = search_timestamp ln, message = ln, type = classify_error ln\<rparr>]
      else [])"
  by (simp add: parse_line_def add_sel Let_def)

lemma events_parse_line:
  "events (parse_line a ln n) =
     events a @
     (if str_in ''overflow'' (lower ln) \<or> str_in ''underrun'' (lower ln)
      then [\<lparr>line = n, timestamp = search_timestamp ln, message = ln,
             type = (if str_in ''overflow'' (lower ln) then ''overflow'' else ''underrun'')\<rparr>]
      else [])"
  by (simp add: parse_line_def add_sel Let_def)

lemma warnings_parse_line:
  "warnings (parse_line a ln n) =
     warnings a @
     (if str_in ''warning'' (lower ln) \<or> str_in ''warn'' (lower ln)
      then [\<lparr>line = n, timestamp = search_timestamp ln, message = ln\<rparr>]
      else [])"
  by (simp add: parse_line_def add_sel Let_def)

lemma buffer_stats_parse_line:
  "buffer_stats (parse_line a ln n) =
     buffer_stats a @
     (if str_in ''buffer health'' (lower ln)
      then [\<lparr>line = n, timestamp = search_timestamp ln, message = ln\<rparr>]
      else [])"
  by (simp add: parse_line_def add_sel Let_def)

lemma memory_readings_parse_line:
  "memory_readings (parse_line a ln n) =
     memory_readings a @
     (if str_in ''memory'' (lower ln) \<and> (str_in ''kb'' (lower ln) \<or> str_in ''mb'' (lower ln))
      then [\<lparr>line = n, timestamp = search_timestamp ln, message = ln\<rparr>]
      else [])"
  by (simp add: parse_line_def add_sel Let_def)

lemma log_file_parse_line: "log_file (parse_line a ln n) = log_file a"
  by (simp add: parse_line_def add_sel Let_def)

text \<open>
  Claim C3.  A line given to \<^verbatim>\<open>_parse_line\<close> that contains "error" or "fail", in any
  case, appends exactly one error, and its subtype follows the first rule that matches:
  "mediacodec" gives MediaCodec; else "audiorecord" gives AudioRecord; else "buffer"
  gives Buffer; else "encoder" gives Encoder; else Unknown.
\<close>

theorem error_subtype_priority:
  assumes "str_in ''error'' (lower ln) \<or> str_in ''fail'' (lower ln)"
  shows "\<exists>e. errors (parse_line a ln n) = errors a @ [e] \<and>
           line e = n \<and> message e = ln \<and> timestamp e = search_timestamp ln \<and>
           (str_in ''mediacodec'' (lower ln) \<longrightarrow> type e = ''MediaCodec'') \<and>
           (\<not> str_in ''mediacodec'' (lower ln) \<and> str_in ''audiorecord'' (lower ln) \<longrightarrow>
              type e = ''AudioRecord'') \<and>
           (\<not> str_in ''mediacodec'' (lower ln) \<and> \<not> str_in ''audiorecord'' (lower ln) \<and>
            str_in ''buffer'' (lower ln) \<longrightarrow> type e = ''Buffer'') \<and>
           (\<not> str_in ''mediacodec'' (lower ln) \<and> \<not> str_in ''audiorecord'' (lower ln) \<and>
            \<not> str_in ''buffer'' (lower ln) \<and> str_in ''encoder'' (lower ln) \<longrightarrow>
              type e = ''Encoder'') \<and>
           (\<not> str_in ''mediacodec'' (lower ln) \<and> \<not> str_in ''audiorecord'' (lower ln) \<and>
            \<not> str_in ''buffer'' (lower ln) \<and> \<not> str_in ''encoder'' (lower ln) \<longrightarrow>
              type e = ''Unknown'')"
  using assms by (simp add: errors_parse_line classify_error_def)

theorem error_subtype_priority_witness:
  "str_in ''error'' (lower ''MediaCodec buffer Error'') \<and>
   str_in ''mediacodec'' (lower ''MediaCodec buffer Error'') \<and>
   str_in ''buffer'' (lower ''MediaCodec buffer Error'') \<and>
   (\<exists>e. errors (parse_line (init ''a.log'') ''MediaCodec buffer Error'' 7) = [e] \<and>
        line e = 7 \<and> type e = ''MediaCodec'')"
proof -
  have l: "lower ''MediaCodec buffer Error'' = ''mediacodec buffer error''"
    by code_simp
  have h: "str_in ''error'' (lower ''MediaCodec buffer Error'')"
    unfolding l by simp
  have m: "str_in ''mediacodec'' (lower ''MediaCodec buffer Error'')"
    unfolding l by simp
  have b: "str_in ''buffer'' (lower ''MediaCodec buffer Error'')"
    unfolding l by simp
  from error_subtype_priority [of "''MediaCodec buffer Error''" "init ''a.log''" 7] h m b
  show ?thesis by (auto simp add: init_def)
qed

text \<open>
  Claim C4.  A line given to \<^verbatim>\<open>_parse_line\<close> that contains "overflow" or "underrun",
  in any case, appends exactly one buffer event; its subtype is overflow when
  "overflow" occurs in the line and underrun otherwise, so a line with both words is
  recorded as an overflow.
\<close>

theorem buffer_event_subtype:
  assumes "str_in ''overflow'' (lower ln) \<or> str_in ''underrun'' (lower ln)"
  shows "\<exists>e. events (parse_line a ln n) = events a @ [e] \<and>
           line e = n \<and> message e = ln \<and> timestamp e = search_timestamp ln \<and>
           (str_in ''overflow'' (lower ln) \<longrightarrow> type e = ''overflow'') \<and>
           (\<not> str_in ''overflow'' (lower ln) \<longrightarrow> type e = ''underrun'') \<and>
           (str_in ''overflow'' (lower ln) \<and> str_in ''underrun'' (lower ln) \<longrightarrow>
              type e = ''overflow'')"
  using assms by (simp add: events_parse_line)

theorem buffer_event_subtype_witness:
  "str_in ''overflow'' (lower ''Underrun after OVERFLOW'') \<and>
   str_in ''underrun'' (lower ''Underrun after OVERFLOW'') \<and>
   (\<exists>e. events (parse_line (init ''a.log'') ''Underrun after OVERFLOW'' 3) = [e] \<and>
        line e = 3 \<and> type e = ''overflow'')"
proof -
  have l: "lower ''Underrun after OVERFLOW'' = ''underrun after overflow''"
    by code_simp
  have o: "str_in ''overflow'' (lower ''Underrun after OVERFLOW'')"
    unfolding l by simp
  have u: "str_in ''underrun'' (lower ''Underrun after OVERFLOW'')"
    unfolding l by simp
  from buffer_event_subtype [of "''Underrun after OVERFLOW''" "init ''a.log''" 3] o u
  show ?thesis by (auto simp add: init_def)
qed

section \<open>The whole file\<close>

lemma fold_sel_concat:
  assumes "\<And>x s. sel (f x s) = sel s @ g x"
  shows "sel (fold f xs s) = sel s @ concat (map g xs)"
  by (induction xs arbitrary: s) (simp_all add: assms)

lemma errors_parse_lines:
  "errors (parse_lines a ls) =
     errors a @
     concat (map (\<lambda>(n, l).
       if str_in ''error'' (lower (strip l)) \<or> str_in ''fail'' (lower (strip l))
       then [\<lparr>line = n, timestamp = search_timestamp (strip l), message = strip l,
              type = classify_error (strip l)\<rparr>]
       else []) (enumerate 1 ls))"
  unfolding parse_lines_def
  by (rule fold_sel_concat) (simp add: errors_parse_line split: prod.splits)

lemma events_parse_lines:
  "events (parse_lines a ls) =
     events a @
     concat (map (\<lambda>(n, l).
       if str_in ''overflow'' (lower (strip l)) \<or> str_in ''underrun'' (lower (strip l))
       then [\<lparr>line = n, timestamp = search_timestamp (strip l), message = strip l,
              type = (if str_in ''overflow'' (lower (strip l)) then ''overflow''
                      else ''underrun'')\<rparr>]
       else []) (enumerate 1 ls))"
  unfolding parse_lines_def
  by (rule fold_sel_concat) (simp add: events_parse_line split: prod.splits)

lemma warnings_parse_lines:
  "warnings (parse_lines a ls) =
     warnings a @
     concat (map (\<lambda>(n, l).
       if str_in ''warning'' (lower (strip l)) \<or> str_in ''warn'' (lower (strip l))
       then [\<lparr>line = n, timestamp = search_timestamp (strip l), message = strip l\<rparr>]
       else []) (enumerate 1 ls))"
  unfolding parse_lines_def
  by (rule fold_sel_concat) (simp add: warnings_parse_line split: prod.splits)

lemma buffer_stats_parse_lines:
  "buffer_stats (parse_lines a ls) =
     buffer_stats a @
     concat (map (\<lambda>(n, l).
       if str_in ''buffer health'' (lower (strip l))
       then [\<lparr>line = n, timestamp = search_timestamp (strip l), message = strip l\<rparr>]
       else []) (enumerate 1 ls))"
  unfolding parse_lines_def
  by (rule fold_sel_concat) (simp add: buffer_stats_parse_line split: prod.splits)

lemma memory_readings_parse_lines:
  "memory_readings (parse_lines a ls) =
     memory_readings a @
     concat (map (\<lambda>(n, l).
       if str_in ''memory'' (lower (strip l)) \<and>
          (str_in ''kb'' (lower (strip l)) \<or> str_in ''mb'' (lower (strip l)))
       then [\<lparr>line = n, timestamp = search_timestamp (strip l), message = strip l\<rparr>]
       else []) (enumerate 1 ls))"
  unfolding parse_lines_def
  by (rule fold_sel_concat) (simp add: memory_readings_parse_line split: prod.splits)

lemma log_file_parse_lines: "log_file (parse_lines a ls) = log_file a"
  using fold_sel_concat [where sel = "\<lambda>a. [log_file a]" and g = "\<lambda>x. []"
      and f = "\<lambda>(line_num, l) a. parse_line a (strip l) line_num" and xs = "enumerate 1 ls" and s = a]
  by (simp add: parse_lines_def log_file_parse_line split: prod.splits)

section \<open>Substrings and stripping\<close>

lemma starts_with_iff: "starts_with k s \<longleftrightarrow> (\<exists>q. s = k @ q)"
  by (induction k s rule: starts_with.induct) auto

lemma str_in_iff: "str_in k s \<longleftrightarrow> (\<exists>p q. s = p @ k @ q)"
proof (induction s)
  case Nil
  show ?case by auto
next
  case (Cons c cs)
  have "(\<exists>p q. c # cs = p @ k @ q) \<longleftrightarrow> (\<exists>q. c # cs = k @ q) \<or> (\<exists>p q. cs = p @ k @ q)"
  proof
    assume "\<exists>p q. c # cs = p @ k @ q"
    then obtain p q where pq: "c # cs = p @ k @ q" by blast
    show "(\<exists>q. c # cs = k @ q) \<or> (\<exists>p q. cs = p @ k @ q)"
    proof (cases p)
      case Nil
      with pq show ?thesis by auto
    next
      case (Cons d p')
      with pq have "cs = p' @ k @ q" by simp
      then show ?thesis by blast
    qed
  next
    assume "(\<exists>q. c # cs = k @ q) \<or> (\<exists>p q. cs = p @ k @ q)"
    then show "\<exists>p q. c # cs = p @ k @ q"
    proof
      assume "\<exists>q. c # cs = k @ q"
      then obtain q where "c # cs = [] @ k @ q" by auto
      then show ?thesis by blast
    next
      assume "\<exists>p q. cs = p @ k @ q"
      then obtain p q where "cs = p @ k @ q" by blast
      then have "c # cs = (c # p) @ k @ q" by simp
      then show ?thesis by blast
    qed
  qed
  with Cons show ?case by (simp add: starts_with_iff)
qed

lemma str_in_dropWhile:
  assumes "k \<noteq> []" and "\<not> P (hd k)"
  shows "str_in k (dropWhile P s) = str_in k s"
proof (induction s)
  case Nil
  show ?case by simp
next
  case (Cons c cs)
  show ?case
  proof (cases "P c")
    case True
    with assms have "\<not> starts_with k (c # cs)"
      by (cases k) auto
    with True Cons show ?thesis by simp
  next
    case False
    then show ?thesis by simp
  qed
qed

lemma str_in_rev: "str_in (rev k) (rev s) = str_in k s"
proof -
  have "(\<exists>p q. rev s = p @ rev k @ q) \<longleftrightarrow> (\<exists>p q. s = p @ k @ q)"
  proof
    assume "\<exists>p q. rev s = p @ rev k @ q"
    then obtain p q where "rev s = p @ rev k @ q" by blast
    then have "rev (rev s) = rev (p @ rev k @ q)" by simp
    then have "s = rev q @ k @ rev p" by simp
    then show "\<exists>p q. s = p @ k @ q" by blast
  next
    assume "\<exists>p q. s = p @ k @ q"
    then obtain p q where "s = p @ k @ q" by blast
    then have "rev s = rev q @ rev k @ rev p" by simp
    then show "\<exists>p q. rev s = p @ rev k @ q" by blast
  qed
  then show ?thesis by (simp add: str_in_iff)
qed

lemma str_in_strip:
  assumes "k \<noteq> []" and "\<not> isspace (hd k)" and "\<not> isspace (last k)"
  shows "str_in k (strip s) = str_in k s"
proof -
  have "str_in k (strip s) = str_in (rev k) (dropWhile isspace (rev (dropWhile isspace s)))"
    unfolding strip_def using str_in_rev [of "rev k"] by simp
  also have "\<dots> = str_in (rev k) (rev (dropWhile isspace s))"
    using assms by (intro str_in_dropWhile) (simp_all add: hd_rev)
  also have "\<dots> = str_in k (dropWhile isspace s)"
    by (rule str_in_rev)
  also have "\<dots> = str_in k s"
    using assms by (intro str_in_dropWhile)
  finally show ?thesis .
qed

lemma isspace_lower_char: "isspace (lower_char c) = isspace c"
proof -
  have "(of_char c :: nat) < 256" by simp
  then show ?thesis
    by (auto simp add: isspace_def lower_char_def Let_def)
qed

lemma lower_dropWhile: "lower (dropWhile isspace s) = dropWhile isspace (lower s)"
  by (simp add: lower_def dropWhile_map comp_def isspace_lower_char)

lemma lower_rev: "lower (rev s) = rev (lower s)"
  by (simp add: lower_def rev_map)

lemma lower_strip: "lower (strip s) = strip (lower s)"
  by (simp add: strip_def lower_rev lower_dropWhile)

lemma str_in_lower_strip:
  assumes "k \<noteq> []" and "\<not> isspace (hd k)" and "\<not> isspace (last k)"
  shows "str_in k (lower (strip s)) = str_in k (lower s)"
  using assms by (simp add: lower_strip str_in_strip)

section \<open>A file without keywords, an error without a critical issue\<close>

lemma keyword_strip:
  "str_in ''error'' (lower (strip l)) = str_in ''error'' (lower l)"
  "str_in ''fail'' (lower (strip l)) = str_in ''fail'' (lower l)"
  "str_in ''overflow'' (lower (strip l)) = str_in ''overflow'' (lower l)"
  "str_in ''underrun'' (lower (strip l)) = str_in ''underrun'' (lower l)"
  "str_in ''warning'' (lower (strip l)) = str_in ''warning'' (lower l)"
  "str_in ''warn'' (lower (strip l)) = str_in ''warn'' (lower l)"
  "str_in ''buffer health'' (lower (strip l)) = str_in ''buffer health'' (lower l)"
  "str_in ''memory'' (lower (strip l)) = str_in ''memory'' (lower l)"
  "str_in ''kb'' (lower (strip l)) = str_in ''kb'' (lower l)"
  "str_in ''mb'' (lower (strip l)) = str_in ''mb'' (lower l)"
  "str_in ''mediacodec'' (lower (strip l)) = str_in ''mediacodec'' (lower l)"
  "str_in ''audiorecord'' (lower (strip l)) = str_in ''audiorecord'' (lower l)"
  "str_in ''buffer'' (lower (strip l)) = str_in ''buffer'' (lower l)"
  "str_in ''encoder'' (lower (strip l)) = str_in ''encoder'' (lower l)"
  by (rule str_in_lower_strip; simp add: isspace_def)+

lemma enumerate_snd_in_set: "(n, l) \<in> set (enumerate k ls) \<Longrightarrow> l \<in> set ls"
  by (auto simp add: in_set_enumerate_eq)

lemma count_type_Nil [simp]: "count_type t [] = 0"
  by (simp add: count_type_def)

lemma str_nat_0: "str_nat 0 = ''0''"
  by (simp add: str_nat.simps digit_char_def)

lemma str_nat_1: "str_nat (Suc 0) = ''1''"
  by (simp add: str_nat.simps digit_char_def)

text \<open>
  Claim C9.  When no line of the file meets the condition of any of the five
  categories, every list stays empty, so every count of the summary is zero, the
  critical-issues section prints its "No critical issues found" line, the verdict is
  PASS and the summary file ends with RESULT: PASS.
\<close>

theorem no_keywords_all_clear:
  assumes parse: "parse_log (init f) (Some ls) = Inr a"
    and quiet: "\<forall>l \<in> set ls.
      \<not> str_in ''error'' (lower l) \<and> \<not> str_in ''fail'' (lower l) \<and>
      \<not> str_in ''overflow'' (lower l) \<and> \<not> str_in ''underrun'' (lower l) \<and>
      \<not> str_in ''warning'' (lower l) \<and> \<not> str_in ''warn'' (lower l) \<and>
      \<not> str_in ''buffer health'' (lower l) \<and>
      \<not> (str_in ''memory'' (lower l) \<and> (str_in ''kb'' (lower l) \<or> str_in ''mb'' (lower l)))"
  shows "errors a = [] \<and> warnings a = [] \<and> events a = [] \<and>
         count_type ''overflow'' (events a) = 0 \<and> count_type ''underrun'' (events a) = 0 \<and>
         buffer_stats a = [] \<and> memory_readings a = [] \<and>
         print_summary a =
           [''SUMMARY STATISTICS'', rule_line CHR ''-'',
            ''Total errors:     0'', ''Total warnings:   0'', ''Buffer events:    0'',
            ''  - Overflows:    0'', ''  - Underruns:    0'',
            ''Buffer stats:     0 samples'', ''Memory readings:  0 samples'', []] \<and>
         critical_issues a = [] \<and>
         print_critical_issues a =
           [''CRITICAL ISSUES'', rule_line CHR ''-'',
            ''  '' @ check_mark @ '' No critical issues found'', []] \<and>
         failures a = [] \<and> snd (print_pass_fail a) = True \<and>
         ''RESULT: PASS'' \<in> set (fst (print_pass_fail a)) \<and>
         last (save_summary a now) = ''RESULT: PASS'' @ newline"
proof -
  from parse have a: "a = parse_lines (init f) ls"
    by (simp add: parse_log_def)
  have e: "errors a = []"
    unfolding a errors_parse_lines using quiet
    by (auto simp add: init_def keyword_strip dest: enumerate_snd_in_set)
  have v: "events a = []"
    unfolding a events_parse_lines using quiet
    by (auto simp add: init_def keyword_strip dest: enumerate_snd_in_set)
  have w: "warnings a = []"
    unfolding a warnings_parse_lines using quiet
    by (auto simp add: init_def keyword_strip dest: enumerate_snd_in_set)
  have b: "buffer_stats a = []"
    unfolding a buffer_stats_parse_lines using quiet
    by (auto simp add: init_def keyword_strip dest: enumerate_snd_in_set)
  have m: "memory_readings a = []"
    unfolding a memory_readings_parse_lines using quiet
    by (auto simp add: init_def keyword_strip dest: enumerate_snd_in_set)
  have s: "print_summary a =
           [''SUMMARY STATISTICS'', rule_line CHR ''-'',
            ''Total errors:     0'', ''Total warnings:   0'', ''Buffer events:    0'',
            ''  - Overflows:    0'', ''  - Underruns:    0'',
            ''Buffer stats:     0 samples'', ''Memory readings:  0 samples'', []]"
    by (simp add: print_summary_def e v w b m str_nat_0)
  have c: "critical_issues a = []"
    by (simp add: critical_issues_def e v)
  have pc: "print_critical_issues a =
           [''CRITICAL ISSUES'', rule_line CHR ''-'',
            ''  '' @ check_mark @ '' No critical issues found'', []]"
    by (simp add: print_critical_issues_def c)
  have fl: "failures a = []"
    by (simp add: failures_def e v)
  have pf: "snd (print_pass_fail a) = True" "''RESULT: PASS'' \<in> set (fst (print_pass_fail a))"
    by (simp_all add: print_pass_fail_def fl)
  have ss: "last (save_summary a now) = ''RESULT: PASS'' @ newline"
    by (simp add: save_summary_def e v)
  from e v w b m s c pc fl pf ss show ?thesis by simp
qed

theorem no_keywords_all_clear_witness:
  "\<exists>a. parse_log (init ''audio-health.log'')
          (Some [''Audio pipeline started'', [], ''  frames captured: 480 '']) = Inr a \<and>
        errors a = [] \<and> warnings a = [] \<and> events a = [] \<and> buffer_stats a = [] \<and>
        memory_readings a = [] \<and> critical_issues a = [] \<and>
        snd (print_pass_fail a) = True \<and>
        last (save_summary a ''2026-01-04 12:00:00'') = ''RESULT: PASS'' @ newline"
proof -
  have p: "parse_log (init ''audio-health.log'')
          (Some [''Audio pipeline started'', [], ''  frames captured: 480 '']) =
        Inr (parse_lines (init ''audio-health.log'')
          [''Audio pipeline started'', [], ''  frames captured: 480 ''])"
    by (simp add: parse_log_def)
  have q: "\<forall>l \<in> set [''Audio pipeline started'', [], ''  frames captured: 480 ''].
      \<not> str_in ''error'' (lower l) \<and> \<not> str_in ''fail'' (lower l) \<and>
      \<not> str_in ''overflow'' (lower l) \<and> \<not> str_in ''underrun'' (lower l) \<and>
      \<not> str_in ''warning'' (lower l) \<and> \<not> str_in ''warn'' (lower l) \<and>
      \<not> str_in ''buffer health'' (lower l) \<and>
      \<not> (str_in ''memory'' (lower l) \<and> (str_in ''kb'' (lower l) \<or> str_in ''mb'' (lower l)))"
    by code_simp
  from no_keywords_all_clear [OF p q, of "''2026-01-04 12:00:00''"] p show ?thesis
    by blast
qed

text \<open>
  Claim C10.  A file of one line that contains "error" and none of "mediacodec",
  "audiorecord", "overflow", "underrun" has the verdict FAIL while the critical-issues
  section reports no critical issue: the one error has subtype Buffer, Encoder or
  Unknown, which the verdict counts and the critical-issues check does not look at.
\<close>

theorem fail_without_critical_issue:
  assumes "str_in ''error'' (lower l)"
    and "\<not> str_in ''mediacodec'' (lower l)" and "\<not> str_in ''audiorecord'' (lower l)"
    and "\<not> str_in ''overflow'' (lower l)" and "\<not> str_in ''underrun'' (lower l)"
  shows "\<exists>a. parse_log (init f) (Some [l]) = Inr a \<and>
           critical_issues a = [] \<and>
           print_critical_issues a =
             [''CRITICAL ISSUES'', rule_line CHR ''-'',
              ''  '' @ check_mark @ '' No critical issues found'', []] \<and>
           snd (print_pass_fail a) = False \<and>
           failures a = [''Errors detected: 1''] \<and>
           (\<exists>e. errors a = [e] \<and>
                (type e = ''Buffer'' \<or> type e = ''Encoder'' \<or> type e = ''Unknown''))"
proof -
  let ?a = "parse_lines (init f) [l]"
  have p: "parse_log (init f) (Some [l]) = Inr ?a"
    by (simp add: parse_log_def)
  have e: "errors ?a = [\<lparr>line = 1, timestamp = search_timestamp (strip l), message = strip l,
                         type = classify_error (strip l)\<rparr>]"
    using assms by (simp add: errors_parse_lines keyword_strip init_def)
  have t: "classify_error (strip l) = ''Buffer'' \<or> classify_error (strip l) = ''Encoder'' \<or>
           classify_error (strip l) = ''Unknown''"
    using assms by (simp add: classify_error_def keyword_strip)
  have v: "events ?a = []"
    using assms by (simp add: events_parse_lines keyword_strip init_def)
  have c: "critical_issues ?a = []"
    using t by (auto simp add: critical_issues_def e v)
  have pc: "print_critical_issues ?a =
             [''CRITICAL ISSUES'', rule_line CHR ''-'',
              ''  '' @ check_mark @ '' No critical issues found'', []]"
    by (simp add: print_critical_issues_def c)
  have fl: "failures ?a = [''Errors detected: 1'']"
    using t by (auto simp add: failures_def e v count_type_def str_nat_1)
  have pf: "snd (print_pass_fail ?a) = False"
    by (simp add: print_pass_fail_def fl)
  from p e t c pc fl pf show ?thesis by simp
qed

theorem fail_without_critical_issue_witness:
  "str_in ''error'' (lower ''E/AudioTrack: write error -32'') \<and>
   (\<exists>a. parse_log (init ''audio-health.log'') (Some [''E/AudioTrack: write error -32'']) = Inr a \<and>
        critical_issues a = [] \<and> snd (print_pass_fail a) = False \<and>
        failures a = [''Errors detected: 1''])"
proof -
  have l: "lower ''E/AudioTrack: write error -32'' = ''e/audiotrack: write error -32''"
    by code_simp
  have 1: "str_in ''error'' (lower ''E/AudioTrack: write error -32'')"
    unfolding l by simp
  have 2: "\<not> str_in ''mediacodec'' (lower ''E/AudioTrack: write error -32'')"
    unfolding l by simp
  have 3: "\<not> str_in ''audiorecord'' (lower ''E/AudioTrack: write error -32'')"
    unfolding l by simp
  have 4: "\<not> str_in ''overflow'' (lower ''E/AudioTrack: write error -32'')"
    unfolding l by simp
  have 5: "\<not> str_in ''underrun'' (lower ''E/AudioTrack: write error -32'')"
    unfolding l by simp
  from fail_without_critical_issue [OF 1 2 3 4 5, of "''audio-health.log''"] 1
  show ?thesis by blast
qed

section \<open>The two verdicts agree\<close>

lemma events_types_parse_lines:
  assumes "\<forall>e \<in> set (events a). type e = ''overflow'' \<or> type e = ''underrun''"
  shows "\<forall>e \<in> set (events (parse_lines a ls)). type e = ''overflow'' \<or> type e = ''underrun''"
  using assms unfolding events_parse_lines by (auto split: if_splits)

lemma length_two_types:
  assumes "\<forall>e \<in> set xs. type e = s \<or> type e = t" and "s \<noteq> t"
  shows "length xs = count_type s xs + count_type t xs"
  using assms by (induction xs) (auto simp add: count_type_length)

text \<open>
  Claim C2.  After a parse, the test of \<^verbatim>\<open>save_summary\<close> (no error and no buffer event)
  holds exactly when \<^verbatim>\<open>_print_pass_fail\<close> returns \<open>True\<close>; the summary file ends with
  RESULT: PASS in that case and with RESULT: FAIL otherwise.  The two rules agree
  because every buffer event recorded by the parse is an overflow or an underrun, and
  the MediaCodec errors are among the errors.
\<close>

theorem summary_verdict_agrees:
  assumes "parse_log (init f) (Some ls) = Inr a"
  shows "((length (errors a) = 0 \<and> length (events a) = 0) \<longleftrightarrow> snd (print_pass_fail a)) \<and>
         (last (save_summary a now) = ''RESULT: PASS'' @ newline \<longleftrightarrow> snd (print_pass_fail a)) \<and>
         (last (save_summary a now) = ''RESULT: FAIL'' @ newline \<longleftrightarrow> \<not> snd (print_pass_fail a)) \<and>
         (\<forall>e \<in> set (events a). type e = ''overflow'' \<or> type e = ''underrun'') \<and>
         length (events a) = count_type ''overflow'' (events a) + count_type ''underrun'' (events a) \<and>
         count_type ''MediaCodec'' (errors a) \<le> length (errors a)"
proof -
  from assms have a: "a = parse_lines (init f) ls"
    by (simp add: parse_log_def)
  have ty: "\<forall>e \<in> set (events a). type e = ''overflow'' \<or> type e = ''underrun''"
    unfolding a by (rule events_types_parse_lines) (simp add: init_def)
  then have len: "length (events a) =
      count_type ''overflow'' (events a) + count_type ''underrun'' (events a)"
    by (rule length_two_types) simp
  have mc: "count_type ''MediaCodec'' (errors a) \<le> length (errors a)"
    by (rule count_type_le)
  have v: "snd (print_pass_fail a) \<longleftrightarrow> failures a = []"
    by (simp add: print_pass_fail_def)
  have agree: "(length (errors a) = 0 \<and> length (events a) = 0) \<longleftrightarrow> snd (print_pass_fail a)"
    unfolding v failures_Nil_iff using len mc by auto
  have pass: "last (save_summary a now) = ''RESULT: PASS'' @ newline \<longleftrightarrow>
      (length (errors a) = 0 \<and> length (events a) = 0)"
    by (simp add: save_summary_def)
  have fail: "last (save_summary a now) = ''RESULT: FAIL'' @ newline \<longleftrightarrow>
      \<not> (length (errors a) = 0 \<and> length (events a) = 0)"
    by (simp add: save_summary_def)
  from agree pass fail ty len mc show ?thesis by blast
qed

theorem summary_verdict_agrees_witness:
  "\<exists>a. parse_log (init ''audio-health.log'')
          (Some [''AudioTrack underrun detected'', ''Buffer health: 85% healthy'']) = Inr a \<and>
        length (events a) = 1 \<and> \<not> snd (print_pass_fail a) \<and>
        last (save_summary a ''2026-01-04 12:00:00'') = ''RESULT: FAIL'' @ newline"
proof -
  have p: "parse_log (init ''audio-health.log'')
          (Some [''AudioTrack underrun detected'', ''Buffer health: 85% healthy'']) =
        Inr (parse_lines (init ''audio-health.log'')
          [''AudioTrack underrun detected'', ''Buffer health: 85% healthy''])"
    by (simp add: parse_log_def)
  have n: "length (events (parse_lines (init ''audio-health.log'')
          [''AudioTrack underrun detected'', ''Buffer health: 85% healthy''])) = 1"
    by code_simp
  from summary_verdict_agrees [OF p, of "''2026-01-04 12:00:00''"] n p show ?thesis
    by auto
qed

section \<open>The scenario of the specification\<close>

lemma errors_single_line:
  assumes "str_in ''error'' (lower (strip l)) \<or> str_in ''fail'' (lower (strip l))"
  shows "errors (parse_lines (init f) [l]) =
           [\<lparr>line = 1, timestamp = search_timestamp (strip l), message = strip l,
             type = classify_error (strip l)\<rparr>]"
  using assms by (simp add: errors_parse_lines init_def)

lemma events_single_line:
  assumes "str_in ''overflow'' (lower (strip l))"
  shows "events (parse_lines (init f) [l]) =
           [\<lparr>line = 1, timestamp = search_timestamp (strip l), message = strip l,
             type = ''overflow''\<rparr>]"
  using assms by (simp add: events_parse_lines init_def)

text \<open>
  Claim C8.  The file whose only line is
  \<^verbatim>\<open>12:34:56.789 ERROR: AudioRecord read failed, buffer overflow detected\<close>
  gives one error, with that timestamp and the subtype AudioRecord, and one buffer event
  of subtype overflow; the error count and the overflow count are 1, and the verdict is
  FAIL with the reasons "Errors detected: 1" and "Buffer overflows: 1".
\<close>

theorem scenario_audiorecord_overflow:
  "\<exists>a. parse_log (init f)
          (Some [''12:34:56.789 ERROR: AudioRecord read failed, buffer overflow detected'']) = Inr a \<and>
        errors a =
          [\<lparr>line = 1, timestamp = Some ''12:34:56.789'',
            message = ''12:34:56.789 ERROR: AudioRecord read failed, buffer overflow detected'',
            type = ''AudioRecord''\<rparr>] \<and>
        events a =
          [\<lparr>line = 1, timestamp = Some ''12:34:56.789'',
            message = ''12:34:56.789 ERROR: AudioRecord read failed, buffer overflow detected'',
            type = ''overflow''\<rparr>] \<and>
        length (errors a) = 1 \<and>
        count_type ''overflow'' (events a) = 1 \<and>
        snd (print_pass_fail a) = False \<and>
        failures a = [''Errors detected: 1'', ''Buffer overflows: 1'']"
proof -
  let ?l = "''12:34:56.789 ERROR: AudioRecord read failed, buffer overflow detected''"
  let ?a = "parse_lines (init f) [?l]"
  have p: "parse_log (init f) (Some [?l]) = Inr ?a"
    by (simp add: parse_log_def)
  have s: "strip ?l = ?l"
    by code_simp
  have lw: "lower ?l = ''12:34:56.789 error: audiorecord read failed, buffer overflow detected''"
    by code_simp
  have ts: "search_timestamp ?l = Some ''12:34:56.789''"
    by code_simp
  have cl: "classify_error ?l = ''AudioRecord''"
    by code_simp
  have k1: "str_in ''error'' (lower ?l)"
    unfolding lw by simp
  have k2: "str_in ''overflow'' (lower ?l)"
    unfolding lw by simp
  have "errors ?a = [\<lparr>line = 1, timestamp = search_timestamp (strip ?l), message = strip ?l,
                         type = classify_error (strip ?l)\<rparr>]"
    by (rule errors_single_line) (simp only: s k1 simp_thms)
  then have e: "errors ?a = [\<lparr>line = 1, timestamp = Some ''12:34:56.789'', message = ?l,
                         type = ''AudioRecord''\<rparr>]"
    by (simp only: s ts cl)
  have "events ?a = [\<lparr>line = 1, timestamp = search_timestamp (strip ?l), message = strip ?l,
                         type = ''overflow''\<rparr>]"
    by (rule events_single_line) (simp only: s k2 simp_thms)
  then have v: "events ?a = [\<lparr>line = 1, timestamp = Some ''12:34:56.789'', message = ?l,
                         type = ''overflow''\<rparr>]"
    by (simp only: s ts)
  have fl: "failures ?a = [''Errors detected: 1'', ''Buffer overflows: 1'']"
    unfolding failures_def e v by (simp add: count_type_def str_nat_1)
  have pf: "snd (print_pass_fail ?a) = False"
    by (simp add: print_pass_fail_def fl)
  have c: "count_type ''overflow'' (events ?a) = 1"
    unfolding v by (simp add: count_type_def)
  have n: "length (errors ?a) = 1"
    unfolding e by simp
  from p e v fl pf c n show ?thesis by blast
qed

section \<open>Line numbers\<close>

lemma in_concat_enumerate:
  assumes "e \<in> set (concat (map g (enumerate k ls)))"
  obtains n where "k \<le> n" and "n < k + length ls" and "e \<in> set (g (n, ls ! (n - k)))"
  using assms by (auto simp add: in_set_enumerate_eq)

lemma sorted_concat_enumerate:
  fixes g :: "nat \<times> string \<Rightarrow> 'a event_scheme list"
  assumes line: "\<And>n l e. e \<in> set (g (n, l)) \<Longrightarrow> line e = n"
    and one: "\<And>n l. length (g (n, l)) \<le> 1"
  shows "sorted_wrt (<) (map line (concat (map g (enumerate k ls))))"
proof (induction ls arbitrary: k)
  case Nil
  show ?case by simp
next
  case (Cons l ls)
  have head: "sorted_wrt (<) (map line (g (k, l)))"
    using one [of k l] by (cases "g (k, l)") auto
  have cross: "line x < line y"
    if "x \<in> set (g (k, l))" and "y \<in> set (concat (map g (enumerate (Suc k) ls)))" for x y
  proof -
    from that(2) obtain n where "Suc k \<le> n" and "y \<in> set (g (n, ls ! (n - Suc k)))"
      by (rule in_concat_enumerate)
    with line [of y n] line [OF that(1)] show ?thesis by simp
  qed
  from head Cons.IH [of "Suc k"] cross show ?case
    by (auto simp add: sorted_wrt_append)
qed

lemma positions_concat_enumerate:
  fixes g :: "nat \<times> string \<Rightarrow> 'a event_scheme list"
  assumes line: "\<And>n l e. e \<in> set (g (n, l)) \<Longrightarrow>
      line e = n \<and> message e = strip l \<and> strip l \<noteq> []"
    and e: "e \<in> set (concat (map g (enumerate 1 ls)))"
  shows "1 \<le> line e \<and> line e \<le> length ls \<and> message e = strip (ls ! (line e - 1)) \<and>
         strip (ls ! (line e - 1)) \<noteq> []"
proof -
  from e obtain n where n: "1 \<le> n" "n < 1 + length ls" "e \<in> set (g (n, ls ! (n - 1)))"
    by (rule in_concat_enumerate)
  from line [OF n(3)] n(1,2) show ?thesis by simp
qed

lemma str_in_nonempty: "k \<noteq> [] \<Longrightarrow> str_in k s \<Longrightarrow> s \<noteq> []"
  by auto

text \<open>
  Claim C5.  After parsing a file, the line numbers in each of the five lists are
  strictly increasing; every recorded entry carries the 1-based position of a line of
  the file, blank lines counted, and its message is that line stripped; a line that is
  empty once stripped is recorded in no list, while the lines after it keep their own
  positions.
\<close>

theorem line_numbers:
  assumes "parse_log (init f) (Some ls) = Inr a"
  shows "sorted_wrt (<) (map line (errors a)) \<and>
         sorted_wrt (<) (map line (events a)) \<and>
         sorted_wrt (<) (map line (warnings a)) \<and>
         sorted_wrt (<) (map line (buffer_stats a)) \<and>
         sorted_wrt (<) (map line (memory_readings a)) \<and>
         (\<forall>e \<in> set (errors a). 1 \<le> line e \<and> line e \<le> length ls \<and>
            message e = strip (ls ! (line e - 1)) \<and> strip (ls ! (line e - 1)) \<noteq> []) \<and>
         (\<forall>e \<in> set (events a). 1 \<le> line e \<and> line e \<le> length ls \<and>
            message e = strip (ls ! (line e - 1)) \<and> strip (ls ! (line e - 1)) \<noteq> []) \<and>
         (\<forall>e \<in> set (warnings a). 1 \<le> line e \<and> line e \<le> length ls \<and>
            message e = strip (ls ! (line e - 1)) \<and> strip (ls ! (line e - 1)) \<noteq> []) \<and>
         (\<forall>e \<in> set (buffer_stats a). 1 \<le> line e \<and> line e \<le> length ls \<and>
            message e = strip (ls ! (line e - 1)) \<and> strip (ls ! (line e - 1)) \<noteq> []) \<and>
         (\<forall>e \<in> set (memory_readings a). 1 \<le> line e \<and> line e \<le> length ls \<and>
            message e = strip (ls ! (line e - 1)) \<and> strip (ls ! (line e - 1)) \<noteq> []) \<and>
         (\<forall>i < length ls. strip (ls ! i) = [] \<longrightarrow>
            i + 1 \<notin> line ` set (errors a) \<and> i + 1 \<notin> line ` set (events a) \<and>
            i + 1 \<notin> line ` set (warnings a) \<and> i + 1 \<notin> line ` set (buffer_stats a) \<and>
            i + 1 \<notin> line ` set (memory_readings a))"
proof -
  from assms have a: "a = parse_lines (init f) ls"
    by (simp add: parse_log_def)
  have s1: "sorted_wrt (<) (map line (errors a))"
    unfolding a errors_parse_lines
    by (simp add: init_def, rule sorted_concat_enumerate) (auto split: if_splits)
  have s2: "sorted_wrt (<) (map line (events a))"
    unfolding a events_parse_lines
    by (simp add: init_def, rule sorted_concat_enumerate) (auto split: if_splits)
  have s3: "sorted_wrt (<) (map line (warnings a))"
    unfolding a warnings_parse_lines
    by (simp add: init_def, rule sorted_concat_enumerate) (auto split: if_splits)
  have s4: "sorted_wrt (<) (map line (buffer_stats a))"
    unfolding a buffer_stats_parse_lines
    by (simp add: init_def, rule sorted_concat_enumerate) (auto split: if_splits)
  have s5: "sorted_wrt (<) (map line (memory_readings a))"
    unfolding a memory_readings_parse_lines
    by (simp add: init_def, rule sorted_concat_enumerate) (auto split: if_splits)
  have p1: "1 \<le> line e \<and> line e \<le> length ls \<and>
      message e = strip (ls ! (line e - 1)) \<and> strip (ls ! (line e - 1)) \<noteq> []"
    if "e \<in> set (errors a)" for e
    using that unfolding a errors_parse_lines init_def analyzer.simps append_Nil
    by (rule positions_concat_enumerate [rotated]) (auto split: if_splits)
  have p2: "1 \<le> line e \<and> line e \<le> length ls \<and>
      message e = strip (ls ! (line e - 1)) \<and> strip (ls ! (line e - 1)) \<noteq> []"
    if "e \<in> set (events a)" for e
    using that unfolding a events_parse_lines init_def analyzer.simps append_Nil
    by (rule positions_concat_enumerate [rotated]) (auto split: if_splits)
  have p3: "1 \<le> line e \<and> line e \<le> length ls \<and>
      message e = strip (ls ! (line e - 1)) \<and> strip (ls ! (line e - 1)) \<noteq> []"
    if "e \<in> set (warnings a)" for e
    using that unfolding a warnings_parse_lines init_def analyzer.simps append_Nil
    by (rule positions_concat_enumerate [rotated]) (auto split: if_splits)
  have p4: "1 \<le> line e \<and> line e \<le> length ls \<and>
      message e = strip (ls ! (line e - 1)) \<and> strip (ls ! (line e - 1)) \<noteq> []"
    if "e \<in> set (buffer_stats a)" for e
    using that unfolding a buffer_stats_parse_lines init_def analyzer.simps append_Nil
    by (rule positions_concat_enumerate [rotated]) (auto split: if_splits)
  have p5: "1 \<le> line e \<and> line e \<le> length ls \<and>
      message e = strip (ls ! (line e - 1)) \<and> strip (ls ! (line e - 1)) \<noteq> []"
    if "e \<in> set (memory_readings a)" for e
    using that unfolding a memory_readings_parse_lines init_def analyzer.simps append_Nil
    by (rule positions_concat_enumerate [rotated]) (auto split: if_splits)
  have blank: "i + 1 \<notin> line ` set (errors a) \<and> i + 1 \<notin> line ` set (events a) \<and>
            i + 1 \<notin> line ` set (warnings a) \<and> i + 1 \<notin> line ` set (buffer_stats a) \<and>
            i + 1 \<notin> line ` set (memory_readings a)"
    if "strip (ls ! i) = []" for i
  proof -
    have "i + 1 \<notin> line ` set es"
      if "\<And>e. e \<in> set es \<Longrightarrow> strip (ls ! (line e - 1)) \<noteq> []"
      for es :: "'b event_scheme list"
    proof
      assume "i + 1 \<in> line ` set es"
      then obtain e where "e \<in> set es" and "line e = i + 1" by auto
      with that [of e] \<open>strip (ls ! i) = []\<close> show False by simp
    qed
    from this [of "errors a"] this [of "events a"] this [of "warnings a"]
      this [of "buffer_stats a"] this [of "memory_readings a"] p1 p2 p3 p4 p5
    show ?thesis by blast
  qed
  from s1 s2 s3 s4 s5 p1 p2 p3 p4 p5 blank show ?thesis by blast
qed

theorem line_numbers_witness:
  "\<exists>a. parse_log (init ''audio-health.log'')
          (Some [''Error: init failed'', [], ''   '', ''WARN: buffer underrun error'']) = Inr a \<and>
        map line (errors a) = [1, 4] \<and> map line (events a) = [4] \<and>
        map line (warnings a) = [4] \<and>
        sorted_wrt (<) (map line (errors a)) \<and>
        strip ([''Error: init failed'', [], ''   '', ''WARN: buffer underrun error''] ! 2) = [] \<and>
        3 \<notin> line ` set (errors a) \<and>
        map message (errors a) = [''Error: init failed'', ''WARN: buffer underrun error'']"
proof -
  let ?ls = "[''Error: init failed'', [], ''   '', ''WARN: buffer underrun error'']"
  let ?a = "parse_lines (init ''audio-health.log'') ?ls"
  have p: "parse_log (init ''audio-health.log'') (Some ?ls) = Inr ?a"
    by (simp add: parse_log_def)
  have a: "?a =
     \<lparr>log_file = ''audio-health.log'',
      events = [\<lparr>line = 4, timestamp = None, message = ''WARN: buffer underrun error'',
                 type = ''underrun''\<rparr>],
      errors = [\<lparr>line = 1, timestamp = None, message = ''Error: init failed'',
                 type = ''Unknown''\<rparr>,
                \<lparr>line = 4, timestamp = None, message = ''WARN: buffer underrun error'',
                 type = ''Buffer''\<rparr>],
      warnings = [\<lparr>line = 4, timestamp = None, message = ''WARN: buffer underrun error''\<rparr>],
      buffer_stats = [], memory_readings = []\<rparr>"
    by code_simp
  have e: "map line (errors ?a) = [1, 4]"
    and v: "map line (events ?a) = [4]"
    and w: "map line (warnings ?a) = [4]"
    and m: "map message (errors ?a) = [''Error: init failed'', ''WARN: buffer underrun error'']"
    by (simp_all only: a analyzer.simps list.map event.simps)
  have b: "strip (?ls ! 2) = []"
    by (simp add: strip_def isspace_def)
  from line_numbers [OF p] have s: "sorted_wrt (<) (map line (errors ?a))"
    by (rule conjunct1)
  from line_numbers [OF p]
  have n: "\<forall>i < length ?ls. strip (?ls ! i) = [] \<longrightarrow>
            i + 1 \<notin> line ` set (errors ?a) \<and> i + 1 \<notin> line ` set (events ?a) \<and>
            i + 1 \<notin> line ` set (warnings ?a) \<and> i + 1 \<notin> line ` set (buffer_stats ?a) \<and>
            i + 1 \<notin> line ` set (memory_readings ?a)"
    by (elim conjE)
  from n [rule_format, of 2] b have t: "3 \<notin> line ` set (errors ?a)"
    by simp
  show ?thesis
    by (intro exI [of _ ?a] conjI) (fact p e v w m s b t)+
qed

section \<open>The event timeline\<close>

lemma sorted_wrt_filter_nth:
  assumes "sorted_wrt R (filter P xs)" and "i < j" and "j < length xs"
    and "P (xs ! i)" and "P (xs ! j)"
  shows "R (xs ! i) (xs ! j)"
proof -
  from assms(2,3) have "xs = take j xs @ xs ! j # drop (Suc j) xs"
    by (simp add: id_take_nth_drop)
  moreover from assms(2,3) have "take j xs = take i (take j xs) @ take j xs ! i # drop (Suc i) (take j xs)"
    by (intro id_take_nth_drop) simp
  moreover from assms(2) have "take j xs ! i = xs ! i" by simp
  ultimately have "xs = (take i (take j xs) @ xs ! i # drop (Suc i) (take j xs)) @ xs ! j # drop (Suc j) xs"
    by simp
  then have "filter P xs =
      filter P (take i (take j xs)) @ xs ! i # filter P (drop (Suc i) (take j xs)) @
      xs ! j # filter P (drop (Suc j) xs)"
    using assms(4,5) by (metis append_Cons append_assoc filter.simps(2) filter_append)
  with assms(1) show ?thesis
    by (simp add: sorted_wrt_append)
qed

lemma type_timeline_of [simp]: "type (timeline_of c e) = c"
  by (simp add: timeline_of_def)

lemma line_timeline_of [simp]: "line (timeline_of c e) = line e"
  by (simp add: timeline_of_def)



section \<open>The error breakdown\<close>

lemma first_index_less: "x \<in> set xs \<Longrightarrow> first_index x xs < length xs"
  by (induction xs) (auto simp add: first_index_def)

lemma first_index_append: "x \<in> set xs \<Longrightarrow> first_index x (xs @ ys) = first_index x xs"
  unfolding first_index_def by (simp add: takeWhile_append1)

lemma first_index_fresh: "x \<notin> set xs \<Longrightarrow> first_index x (xs @ [x]) = length xs"
  by (induction xs) (auto simp add: first_index_def)

lemma nth_first_index: "x \<in> set xs \<Longrightarrow> xs ! first_index x xs = x"
  by (induction xs) (auto simp add: first_index_def)

lemma before_first_index: "i < first_index x xs \<Longrightarrow> xs ! i \<noteq> x"
proof (induction xs arbitrary: i)
  case Nil
  then show ?case by (simp add: first_index_def)
next
  case (Cons y ys)
  then show ?case
    by (cases i) (auto simp add: first_index_def split: if_splits)
qed

lemma keys_counter_add:
  "map fst (counter_add k kvs) =
     (if k \<in> set (map fst kvs) then map fst kvs else map fst kvs @ [k])"
  by (induction kvs) (fastforce simp add: image_iff)+

lemma map_of_counter_add:
  "map_of (counter_add k kvs) =
     (map_of kvs)(k \<mapsto> (case map_of kvs k of None \<Rightarrow> 1 | Some c \<Rightarrow> c + 1))"
  by (induction kvs) (auto simp add: fun_eq_iff)

lemma Counter_Nil [simp]: "Counter [] = []"
  by (simp add: Counter_def)

lemma Counter_snoc: "Counter (xs @ [x]) = counter_add x (Counter xs)"
  by (simp add: Counter_def)

lemma set_keys_Counter: "set (map fst (Counter xs)) = set xs"
  by (induction xs rule: rev_induct) (auto simp add: Counter_snoc keys_counter_add)

lemma in_Counter_key: "(k, c) \<in> set (Counter xs) \<Longrightarrow> k \<in> set xs"
  using set_keys_Counter [of xs] by force

lemma distinct_keys_Counter: "distinct (map fst (Counter xs))"
proof (induction xs rule: rev_induct)
  case Nil
  show ?case by simp
next
  case (snoc x xs)
  then show ?case
    using set_keys_Counter [of xs] by (simp add: Counter_snoc keys_counter_add)
qed

lemma map_of_Counter:
  "map_of (Counter xs) k = (if k \<in> set xs then Some (count_list xs k) else None)"
proof (induction xs arbitrary: k rule: rev_induct)
  case Nil
  show ?case by simp
next
  case (snoc x xs)
  show ?case
    by (simp add: Counter_snoc map_of_counter_add snoc.IH)
qed

lemma Counter_count:
  assumes "(k, c) \<in> set (Counter xs)"
  shows "k \<in> set xs \<and> c = count_list xs k"
proof -
  from assms have "map_of (Counter xs) k = Some c"
    by (simp add: distinct_keys_Counter)
  then show ?thesis
    by (simp add: map_of_Counter split: if_splits)
qed

lemma keys_Counter_snoc:
  "map fst (Counter (xs @ [x])) =
     (if x \<in> set xs then map fst (Counter xs) else map fst (Counter xs) @ [x])"
  using set_keys_Counter [of xs] by (simp add: Counter_snoc keys_counter_add)

lemma keys_Counter_first_index:
  "sorted_wrt (\<lambda>k k'. first_index k xs < first_index k' xs) (map fst (Counter xs))"
proof (induction xs rule: rev_induct)
  case Nil
  show ?case by simp
next
  case (snoc x xs)
  let ?ks = "map fst (Counter xs)"
  have ks: "set ?ks = set xs" by (rule set_keys_Counter)
  from snoc have old: "sorted_wrt (\<lambda>k k'. first_index k (xs @ [x]) < first_index k' (xs @ [x])) ?ks"
  proof (rule sorted_wrt_mono_rel [rotated])
    fix k k'
    assume "k \<in> set ?ks" and "k' \<in> set ?ks" and "first_index k xs < first_index k' xs"
    then show "first_index k (xs @ [x]) < first_index k' (xs @ [x])"
      unfolding ks by (simp add: first_index_append)
  qed
  show ?case
  proof (cases "x \<in> set xs")
    case True
    with old show ?thesis by (simp only: keys_Counter_snoc if_True)
  next
    case False
    have "first_index k (xs @ [x]) < first_index x (xs @ [x])" if "k \<in> set ?ks" for k
      using that False unfolding ks
      by (simp add: first_index_append first_index_fresh first_index_less)
    with old False show ?thesis
      by (simp only: keys_Counter_snoc if_False sorted_wrt_append) simp
  qed
qed

lemma set_most_common [simp]: "set (most_common kvs) = set kvs"
  by (simp add: most_common_def sorted_reverse_def)

lemma length_most_common [simp]: "length (most_common kvs) = length kvs"
  by (simp add: most_common_def sorted_reverse_def)

lemma most_common_descending: "sorted_wrt (\<lambda>p q. snd q \<le> snd p) (most_common kvs)"
proof -
  have "sorted (map snd (sort_key snd (rev kvs)))"
    by (rule sorted_sort_key)
  then have "sorted_wrt (\<lambda>p q. snd p \<le> snd q) (sort_key snd (rev kvs))"
    by (simp add: sorted_wrt_map)
  then show ?thesis
    by (simp add: most_common_def sorted_reverse_def sorted_wrt_rev)
qed

lemma most_common_stable:
  "filter (\<lambda>p. snd p = c) (most_common kvs) = filter (\<lambda>p. snd p = c) kvs"
proof -
  have "filter (\<lambda>p. snd p = c) (most_common kvs) =
      rev (filter (\<lambda>p. snd p = c) (sort_key snd (rev kvs)))"
    by (simp add: most_common_def sorted_reverse_def rev_filter)
  also have "\<dots> = rev (filter (\<lambda>p. snd p = c) (rev kvs))"
    by (simp only: sort_key_stable)
  also have "\<dots> = filter (\<lambda>p. snd p = c) kvs"
    by (simp add: rev_filter)
  finally show ?thesis .
qed

lemma distinct_keys_most_common:
  "distinct (map fst kvs) \<Longrightarrow> distinct (map fst (most_common kvs))"
  by (simp add: distinct_map most_common_def sorted_reverse_def)

lemma find_first_index:
  assumes "t \<in> type ` set errs"
  shows "find (\<lambda>e. type e = t) errs = Some (errs ! first_index t (map type errs))"
  using assms by (induction errs) (auto simp add: first_index_def)

lemma breakdown_rows_ok:
  assumes "\<forall>p \<in> set kvs. fst p \<in> type ` set errs"
  shows "breakdown_rows errs kvs =
           Inr (map (\<lambda>(t, c). (t, c, errs ! first_index t (map type errs))) kvs)"
  using assms by (induction kvs) (auto simp add: find_first_index)

lemma count_list_map_type: "count_list (map type xs) t = count_type t xs"
  by (induction xs) (auto simp add: count_type_length)

lemma split_first_index:
  assumes "x \<in> set xs"
  shows "xs = take (first_index x xs) xs @ x # drop (Suc (first_index x xs)) xs \<and>
         x \<notin> set (take (first_index x xs) xs)"
proof -
  from assms have lt: "first_index x xs < length xs" by (rule first_index_less)
  then have "xs = take (first_index x xs) xs @ xs ! first_index x xs # drop (Suc (first_index x xs)) xs"
    by (rule id_take_nth_drop)
  moreover have "x \<notin> set (take (first_index x xs) xs)"
    using lt by (auto simp add: in_set_conv_nth dest: before_first_index)
  ultimately show ?thesis using assms by (simp add: nth_first_index)
qed

lemma errors_lines_sorted: "sorted_wrt (<) (map line (errors (parse_lines (init f) ls)))"
  unfolding errors_parse_lines
  by (simp add: init_def, rule sorted_concat_enumerate) (auto split: if_splits)

lemma first_occurrence_split:
  assumes "t \<in> type ` set errs"
  defines "i \<equiv> first_index t (map type errs)"
  shows "errs = take i errs @ errs ! i # drop (Suc i) errs \<and> type (errs ! i) = t \<and>
         (\<forall>x \<in> set (take i errs). type x \<noteq> t)"
proof -
  from assms(1) have t: "t \<in> set (map type errs)" by simp
  then have lt: "i < length errs"
    unfolding i_def using first_index_less [of t "map type errs"] by simp
  then have 1: "errs = take i errs @ errs ! i # drop (Suc i) errs"
    by (rule id_take_nth_drop)
  from t lt have 2: "type (errs ! i) = t"
    unfolding i_def using nth_first_index [of t "map type errs"] by simp
  have 3: "\<forall>x \<in> set (take i errs). type x \<noteq> t"
  proof
    fix x assume "x \<in> set (take i errs)"
    then obtain j where j: "j < i" "j < length errs" "x = errs ! j"
      by (auto simp add: in_set_conv_nth)
    from j(1) have "map type errs ! j \<noteq> t"
      unfolding i_def by (rule before_first_index)
    with j show "type x \<noteq> t" by simp
  qed
  from 1 2 3 show ?thesis by blast
qed

lemma first_index_order_split:
  assumes "x \<in> set xs" and "first_index x xs < first_index y xs"
  shows "\<exists>pre post. xs = pre @ x # post \<and> x \<notin> set pre \<and> y \<notin> set pre"
proof -
  let ?pre = "take (first_index x xs) xs"
  from split_first_index [OF assms(1)]
  have 1: "xs = ?pre @ x # drop (Suc (first_index x xs)) xs" and 2: "x \<notin> set ?pre"
    by blast+
  have 3: "y \<notin> set ?pre"
  proof
    assume "y \<in> set ?pre"
    then obtain j where "j < first_index x xs" "j < length xs" "xs ! j = y"
      by (auto simp add: in_set_conv_nth)
    with assms(2) before_first_index [of j y xs] show False by simp
  qed
  from 1 2 3 show ?thesis by blast
qed

text \<open>
  Claim C7.  The error breakdown returns its rows (the \<^verbatim>\<open>next\<close> never raises): one
  row per subtype that occurs, in descending order of the counts; of two rows with the
  same count, the one whose subtype occurs first among the errors comes first.  Each
  row carries the number of errors of its subtype and the first error of that subtype
  in the list, which after a parse is the one with the least line number.  For every
  row the section prints two lines, in the order of the rows: the subtype with its
  count, then the line number of that first error with the first 70 characters of its
  message.
\<close>

theorem error_breakdown_order:
  "\<exists>rows. error_breakdown a = Inr rows \<and>
     (errors a \<noteq> [] \<longrightarrow>
        print_error_breakdown a =
          Inr ([''ERROR BREAKDOWN BY TYPE'', rule_line CHR ''-''] @
               concat (map (\<lambda>(t, c, e).
                 [''  '' @ t @ '': '' @ str_nat c,
                  ''    Example (line '' @ str_nat (line e) @ ''): '' @ take 70 (message e)])
                 rows) @
               [[]])) \<and>
     (errors a = [] \<longrightarrow>
        print_error_breakdown a =
          Inr [''ERROR BREAKDOWN BY TYPE'', rule_line CHR ''-'',
               ''  '' @ check_mark @ '' No errors found'', []]) \<and>
     distinct (map fst rows) \<and> set (map fst rows) = type ` set (errors a) \<and>
     sorted_wrt (\<lambda>r r'. fst (snd r) \<ge> fst (snd r')) rows \<and>
     (\<forall>i j. i < j \<and> j < length rows \<and> fst (snd (rows ! i)) = fst (snd (rows ! j)) \<longrightarrow>
        (\<exists>pre post. map type (errors a) = pre @ fst (rows ! i) # post \<and>
           fst (rows ! i) \<notin> set pre \<and> fst (rows ! j) \<notin> set pre)) \<and>
     (\<forall>(t, c, e) \<in> set rows.
        c = count_type t (errors a) \<and> 0 < c \<and> type e = t \<and>
        (\<exists>pre post. errors a = pre @ e # post \<and> (\<forall>x \<in> set pre. type x \<noteq> t))) \<and>
     (\<forall>f ls. parse_log (init f) (Some ls) = Inr a \<longrightarrow>
        (\<forall>(t, c, e) \<in> set rows. \<forall>x \<in> set (errors a). type x = t \<longrightarrow> line e \<le> line x))"
proof -
  let ?errs = "errors a"
  let ?ts = "map type ?errs"
  let ?mc = "most_common (Counter ?ts)"
  let ?row = "\<lambda>(t, c). (t, c, ?errs ! first_index t ?ts)"
  let ?rows = "map ?row ?mc"
  have keys: "\<forall>p \<in> set ?mc. fst p \<in> type ` set ?errs"
    using in_Counter_key [of _ _ ?ts] by auto
  then have ok: "error_breakdown a = Inr ?rows"
    unfolding error_breakdown_def by (rule breakdown_rows_ok)
  have lines_of: "breakdown_lines =
      (\<lambda>(t, c, e).
         [''  '' @ t @ '': '' @ str_nat c,
          ''    Example (line '' @ str_nat (line e) @ ''): '' @ take 70 (message e)])"
    by (simp add: fun_eq_iff breakdown_lines_def)
  have printed: "print_error_breakdown a =
          Inr ([''ERROR BREAKDOWN BY TYPE'', rule_line CHR ''-''] @
               concat (map (\<lambda>(t, c, e).
                 [''  '' @ t @ '': '' @ str_nat c,
                  ''    Example (line '' @ str_nat (line e) @ ''): '' @ take 70 (message e)])
                 ?rows) @
               [[]])" if "?errs \<noteq> []"
    using that unfolding lines_of [symmetric] by (simp add: print_error_breakdown_def ok)
  have none: "print_error_breakdown a =
          Inr [''ERROR BREAKDOWN BY TYPE'', rule_line CHR ''-'',
               ''  '' @ check_mark @ '' No errors found'', []]" if "?errs = []"
    using that by (simp add: print_error_breakdown_def)
  have fst_rows: "map fst ?rows = map fst ?mc"
    by (simp add: case_prod_beta comp_def)
  have dist: "distinct (map fst ?rows)"
    unfolding fst_rows by (intro distinct_keys_most_common distinct_keys_Counter)
  have "set (map fst ?mc) = set ?ts"
    using set_keys_Counter [of ?ts] by simp
  then have all: "set (map fst ?rows) = type ` set ?errs"
    unfolding fst_rows by simp
  have desc: "sorted_wrt (\<lambda>r r'. fst (snd r) \<ge> fst (snd r')) ?rows"
    using most_common_descending [of "Counter ?ts"]
    by (simp add: sorted_wrt_map case_prod_beta)
  have ties: "\<exists>pre post. ?ts = pre @ fst (?rows ! i) # post \<and>
           fst (?rows ! i) \<notin> set pre \<and> fst (?rows ! j) \<notin> set pre"
    if ij: "i < j" "j < length ?rows" and eq: "fst (snd (?rows ! i)) = fst (snd (?rows ! j))"
    for i j
  proof -
    from ij have j: "j < length ?mc" and i: "i < length ?mc" by simp_all
    have ri: "fst (?rows ! i) = fst (?mc ! i)" "fst (snd (?rows ! i)) = snd (?mc ! i)"
      using i by (simp_all add: case_prod_beta)
    have rj: "fst (?rows ! j) = fst (?mc ! j)" "fst (snd (?rows ! j)) = snd (?mc ! j)"
      using j by (simp_all add: case_prod_beta)
    let ?R = "\<lambda>p q :: string \<times> nat. first_index (fst p) ?ts < first_index (fst q) ?ts"
    let ?c = "snd (?mc ! j)"
    have "sorted_wrt ?R (Counter ?ts)"
      using keys_Counter_first_index [of ?ts] by (simp add: sorted_wrt_map)
    then have "sorted_wrt ?R (filter (\<lambda>p. snd p = ?c) (Counter ?ts))"
      by (rule sorted_wrt_filter)
    then have "sorted_wrt ?R (filter (\<lambda>p. snd p = ?c) ?mc)"
      by (simp only: most_common_stable)
    from sorted_wrt_filter_nth [OF this ij(1) j] eq ri rj
    have lt: "first_index (fst (?mc ! i)) ?ts < first_index (fst (?mc ! j)) ?ts"
      by simp
    from keys i have "fst (?mc ! i) \<in> set ?ts"
      using nth_mem [of i ?mc] by auto
    from first_index_order_split [OF this lt] ri rj show ?thesis
      by simp
  qed
  have rows: "c = count_type t ?errs \<and> 0 < c \<and> type e = t \<and>
        (\<exists>pre post. ?errs = pre @ e # post \<and> (\<forall>x \<in> set pre. type x \<noteq> t))"
    if "(t, c, e) \<in> set ?rows" for t c e
  proof -
    from that have tc: "(t, c) \<in> set (Counter ?ts)"
      and e: "e = ?errs ! first_index t ?ts"
      by auto
    from Counter_count [OF tc] have t: "t \<in> type ` set ?errs"
      and c: "c = count_type t ?errs"
      by (simp_all add: count_list_map_type)
    from t have pos: "0 < count_type t ?errs"
      by (auto simp add: count_type_pos_iff)
    from first_occurrence_split [OF t] e c pos show ?thesis
      by blast
  qed
  have lines: "line e \<le> line x"
    if p: "parse_log (init f) (Some ls) = Inr a" and r: "(t, c, e) \<in> set ?rows"
      and x: "x \<in> set ?errs" "type x = t" for f ls t c e x
  proof -
    from p have "a = parse_lines (init f) ls" by (simp add: parse_log_def)
    then have sorted: "sorted_wrt (<) (map line ?errs)"
      by (simp only: errors_lines_sorted)
    from rows [OF r] obtain pre post where split: "?errs = pre @ e # post"
      and pre: "\<forall>y \<in> set pre. type y \<noteq> t" by blast
    from x(1) have "x \<in> set pre \<or> x = e \<or> x \<in> set post"
      by (simp only: split set_append set_simps) blast
    with pre x(2) have cases: "x = e \<or> x \<in> set post" by blast
    from sorted have "sorted_wrt (<) (map line pre @ line e # map line post)"
      by (simp only: split map_append list.map)
    then have "\<forall>y \<in> set post. line e < line y"
      by (simp add: sorted_wrt_append)
    with cases show ?thesis by auto
  qed
  show ?thesis
  proof (intro exI [of _ ?rows] conjI)
    show "error_breakdown a = Inr ?rows" by (rule ok)
    show "?errs \<noteq> [] \<longrightarrow> print_error_breakdown a =
          Inr ([''ERROR BREAKDOWN BY TYPE'', rule_line CHR ''-''] @
               concat (map (\<lambda>(t, c, e).
                 [''  '' @ t @ '': '' @ str_nat c,
                  ''    Example (line '' @ str_nat (line e) @ ''): '' @ take 70 (message e)])
                 ?rows) @
               [[]])"
      using printed by blast
    show "?errs = [] \<longrightarrow> print_error_breakdown a =
          Inr [''ERROR BREAKDOWN BY TYPE'', rule_line CHR ''-'',
               ''  '' @ check_mark @ '' No errors found'', []]"
      using none by blast
    show "distinct (map fst ?rows)" by (rule dist)
    show "set (map fst ?rows) = type ` set ?errs" by (rule all)
    show "sorted_wrt (\<lambda>r r'. fst (snd r) \<ge> fst (snd r')) ?rows" by (rule desc)
    show "\<forall>i j. i < j \<and> j < length ?rows \<and> fst (snd (?rows ! i)) = fst (snd (?rows ! j)) \<longrightarrow>
        (\<exists>pre post. ?ts = pre @ fst (?rows ! i) # post \<and>
           fst (?rows ! i) \<notin> set pre \<and> fst (?rows ! j) \<notin> set pre)"
      using ties by blast
    show "\<forall>(t, c, e) \<in> set ?rows.
        c = count_type t ?errs \<and> 0 < c \<and> type e = t \<and>
        (\<exists>pre post. ?errs = pre @ e # post \<and> (\<forall>x \<in> set pre. type x \<noteq> t))"
      using rows by blast
    show "\<forall>f ls. parse_log (init f) (Some ls) = Inr a \<longrightarrow>
        (\<forall>(t, c, e) \<in> set ?rows. \<forall>x \<in> set ?errs. type x = t \<longrightarrow> line e \<le> line x)"
      using lines by blast
  qed
qed

theorem error_breakdown_order_witness:
  "\<exists>rows. error_breakdown (parse_lines (init ''audio-health.log'')
             [''encoder error'',
              ''MediaCodec error: dequeueOutputBuffer returned INFO_TRY_AGAIN_LATER for 40 consecutive polls'',
              ''mediacodec start failed'', ''buffer error'']) = Inr rows \<and>
          map (\<lambda>(t, c, e). (t, c, line e)) rows =
            [(''MediaCodec'', 2, 2), (''Encoder'', 1, 1), (''Buffer'', 1, 4)] \<and>
          distinct (map fst rows) \<and>
          sorted_wrt (\<lambda>r r'. fst (snd r) \<ge> fst (snd r')) rows \<and>
          errors (parse_lines (init ''audio-health.log'')
             [''encoder error'',
              ''MediaCodec error: dequeueOutputBuffer returned INFO_TRY_AGAIN_LATER for 40 consecutive polls'',
              ''mediacodec start failed'', ''buffer error'']) \<noteq> [] \<and>
          print_error_breakdown (parse_lines (init ''audio-health.log'')
             [''encoder error'',
              ''MediaCodec error: dequeueOutputBuffer returned INFO_TRY_AGAIN_LATER for 40 consecutive polls'',
              ''mediacodec start failed'', ''buffer error'']) =
            Inr [''ERROR BREAKDOWN BY TYPE'', rule_line CHR ''-'',
                 ''  MediaCodec: 2'',
                 ''    Example (line 2): MediaCodec error: dequeueOutputBuffer returned INFO_TRY_AGAIN_LATER fo'',
                 ''  Encoder: 1'',
                 ''    Example (line 1): encoder error'',
                 ''  Buffer: 1'',
                 ''    Example (line 4): buffer error'',
                 []]"
proof -
  let ?a = "parse_lines (init ''audio-health.log'')
             [''encoder error'',
              ''MediaCodec error: dequeueOutputBuffer returned INFO_TRY_AGAIN_LATER for 40 consecutive polls'',
              ''mediacodec start failed'', ''buffer error'']"
  have ev: "error_breakdown ?a =
      Inr [(''MediaCodec'', 2,
             \<lparr>line = 2, timestamp = None,
              message = ''MediaCodec error: dequeueOutputBuffer returned INFO_TRY_AGAIN_LATER for 40 consecutive polls'',
              type = ''MediaCodec''\<rparr>),
           (''Encoder'', 1,
             \<lparr>line = 1, timestamp = None,
              message = ''encoder error'',
              type = ''Encoder''\<rparr>),
           (''Buffer'', 1,
             \<lparr>line = 4, timestamp = None,
              message = ''buffer error'',
              type = ''Buffer''\<rparr>)]"
    by code_simp
  from error_breakdown_order [of ?a] obtain rows where rows: "error_breakdown ?a = Inr rows"
    and pr: "errors ?a \<noteq> [] \<longrightarrow>
        print_error_breakdown ?a =
          Inr ([''ERROR BREAKDOWN BY TYPE'', rule_line CHR ''-''] @
               concat (map (\<lambda>(t, c, e).
                 [''  '' @ t @ '': '' @ str_nat c,
                  ''    Example (line '' @ str_nat (line e) @ ''): '' @ take 70 (message e)])
                 rows) @
               [[]])"
    and d: "distinct (map fst rows)"
    and al: "set (map fst rows) = type ` set (errors ?a)"
    and s: "sorted_wrt (\<lambda>r r'. fst (snd r) \<ge> fst (snd r')) rows"
    by blast
  from rows ev have r: "rows =
          [(''MediaCodec'', 2,
             \<lparr>line = 2, timestamp = None,
              message = ''MediaCodec error: dequeueOutputBuffer returned INFO_TRY_AGAIN_LATER for 40 consecutive polls'',
              type = ''MediaCodec''\<rparr>),
           (''Encoder'', 1,
             \<lparr>line = 1, timestamp = None,
              message = ''encoder error'',
              type = ''Encoder''\<rparr>),
           (''Buffer'', 1,
             \<lparr>line = 4, timestamp = None,
              message = ''buffer error'',
              type = ''Buffer''\<rparr>)]"
    by (simp only: sum.inject)
  have m: "map (\<lambda>(t, c, e). (t, c, line e)) rows =
            [(''MediaCodec'', 2, 2), (''Encoder'', 1, 1), (''Buffer'', 1, 4)]"
    unfolding r by simp
  have "map fst rows \<noteq> []"
    unfolding r by simp
  then have "set (map fst rows) \<noteq> {}"
    by (simp only: set_empty not_False_eq_True)
  with al have "type ` set (errors ?a) \<noteq> {}"
    by simp
  then have ne: "errors ?a \<noteq> []"
    by auto
  with pr have "print_error_breakdown ?a =
          Inr ([''ERROR BREAKDOWN BY TYPE'', rule_line CHR ''-''] @
               concat (map (\<lambda>(t, c, e).
                 [''  '' @ t @ '': '' @ str_nat c,
                  ''    Example (line '' @ str_nat (line e) @ ''): '' @ take 70 (message e)])
                 rows) @
               [[]])"
    by (rule mp)
  then have pl: "print_error_breakdown ?a =
            Inr [''ERROR BREAKDOWN BY TYPE'', rule_line CHR ''-'',
                 ''  MediaCodec: 2'',
                 ''    Example (line 2): MediaCodec error: dequeueOutputBuffer returned INFO_TRY_AGAIN_LATER fo'',
                 ''  Encoder: 1'',
                 ''    Example (line 1): encoder error'',
                 ''  Buffer: 1'',
                 ''    Example (line 4): buffer error'',
                 []]"
    unfolding r by (simp add: str_nat.simps digit_char_def)
  show ?thesis
    by (intro exI [of _ rows] conjI) (fact rows m d s ne pl)+
qed

section \<open>Further scenarios of the specification\<close>

text \<open>
  Warnings, buffer-health samples and memory readings take no part in the verdict: the
  list \<^verbatim>\<open>failures\<close> and the value returned read the errors and the buffer events only.
\<close>

theorem verdict_ignores_warnings:
  "failures (a\<lparr>warnings := w, buffer_stats := b, memory_readings := m\<rparr>) = failures a \<and>
   snd (print_pass_fail (a\<lparr>warnings := w, buffer_stats := b, memory_readings := m\<rparr>)) =
     snd (print_pass_fail a)"
  by (simp add: failures_def print_pass_fail_def)

text \<open>
  The file whose only line is \<^verbatim>\<open>Buffer health: 85% healthy\<close> gives one buffer-health
  sample and nothing else; both verdicts are PASS.
\<close>

theorem scenario_buffer_health:
  "parse_lines (init ''audio-health.log'') [''Buffer health: 85% healthy''] =
     \<lparr>log_file = ''audio-health.log'', events = [], errors = [], warnings = [],
      buffer_stats = [\<lparr>line = 1, timestamp = None, message = ''Buffer health: 85% healthy''\<rparr>],
      memory_readings = []\<rparr> \<and>
   snd (print_pass_fail
     (parse_lines (init ''audio-health.log'') [''Buffer health: 85% healthy''])) = True \<and>
   last (save_summary
     (parse_lines (init ''audio-health.log'') [''Buffer health: 85% healthy'']) now) =
     ''RESULT: PASS'' @ newline"
proof -
  have a: "parse_lines (init ''audio-health.log'') [''Buffer health: 85% healthy''] =
     \<lparr>log_file = ''audio-health.log'', events = [], errors = [], warnings = [],
      buffer_stats = [\<lparr>line = 1, timestamp = None, message = ''Buffer health: 85% healthy''\<rparr>],
      memory_readings = []\<rparr>"
    by code_simp
  show ?thesis
    unfolding a by (simp add: print_pass_fail_def failures_def save_summary_def)
qed

text \<open>
  The file whose only line is \<^verbatim>\<open>WARNING: memory at 512 MB, growing\<close> gives one warning
  and one memory reading from the same line, and the verdict stays PASS.
\<close>

theorem scenario_warning_memory:
  "parse_lines (init ''audio-health.log'') [''WARNING: memory at 512 MB, growing''] =
     \<lparr>log_file = ''audio-health.log'', events = [], errors = [],
      warnings = [\<lparr>line = 1, timestamp = None,
                   message = ''WARNING: memory at 512 MB, growing''\<rparr>],
      buffer_stats = [],
      memory_readings = [\<lparr>line = 1, timestamp = None,
                          message = ''WARNING: memory at 512 MB, growing''\<rparr>]\<rparr> \<and>
   failures (parse_lines (init ''audio-health.log'')
     [''WARNING: memory at 512 MB, growing'']) = [] \<and>
   snd (print_pass_fail (parse_lines (init ''audio-health.log'')
     [''WARNING: memory at 512 MB, growing''])) = True"
proof -
  have a: "parse_lines (init ''audio-health.log'') [''WARNING: memory at 512 MB, growing''] =
     \<lparr>log_file = ''audio-health.log'', events = [], errors = [],
      warnings = [\<lparr>line = 1, timestamp = None,
                   message = ''WARNING: memory at 512 MB, growing''\<rparr>],
      buffer_stats = [],
      memory_readings = [\<lparr>line = 1, timestamp = None,
                          message = ''WARNING: memory at 512 MB, growing''\<rparr>]\<rparr>"
    by code_simp
  show ?thesis
    unfolding a by (simp add: print_pass_fail_def failures_def)
qed

end
